theory Spec2Isabelle
  imports Complex_Main
begin

section \<open>Data model of workout_creator.py\<close>

text \<open>
  Conventions of the embedding.
  \<^item> A Python \<open>float\<close> is an IEEE 754 double. A finite double is the \<^typ>\<open>rat\<close> it
    denotes, and the sum, product and quotient of two floats and \<open>float(s)\<close> are the exact
    results rounded to the nearest double, ties to the even one (\<open>round_double\<close>). The
    infinities and NaN are not modelled. \<open>int(x)\<close> on a float truncates toward zero
    (\<open>py_int\<close>).
  \<^item> A Python \<open>int\<close> is an \<^typ>\<open>int\<close>.
  \<^item> A Python \<open>str\<close> is a \<^typ>\<open>string\<close>: a list of code points below 256.
  \<^item> An attribute that may be \<open>None\<close> is an \<open>option\<close>.
  \<^item> The members of the enumerations carry the name of their class as a prefix, as in the
    source's \<open>StepType.OPEN\<close>, \<open>TargetType.OPEN\<close>.
\<close>

datatype StepType =
    StepType_STEADY | StepType_RAMP | StepType_RANGE | StepType_OPEN
  | StepType_WARMUP | StepType_COOLDOWN | StepType_RECOVERY | StepType_REPEAT

datatype TargetType =
    TargetType_POWER | TargetType_HEART_RATE | TargetType_CADENCE | TargetType_OPEN

text \<open>
  The enumerations below are imported by the source from the FIT profile library; only the
  members the source mentions are listed.
\<close>

datatype Intensity =
    Intensity_ACTIVE | Intensity_WARMUP | Intensity_COOLDOWN
  | Intensity_RECOVERY | Intensity_INTERVAL

datatype WorkoutStepDuration =
    WorkoutStepDuration_TIME | WorkoutStepDuration_REPEAT_UNTIL_STEPS_CMPLT

datatype WorkoutStepTarget =
    WorkoutStepTarget_OPEN | WorkoutStepTarget_HEART_RATE | WorkoutStepTarget_POWER

datatype Sport = Sport_CYCLING

text \<open>The dataclass \<open>WorkoutStep\<close>, its fields in the order of the source.\<close>

datatype WorkoutStep = WorkoutStep
  (step_type: StepType)
  (duration_seconds: rat)
  (target_type: TargetType)
  (power_low_pct: rat)
  (power_high_pct: rat)
  (hr_target_type: "TargetType option")
  (hr_low: rat)
  (hr_high: rat)
  (hr_is_percentage: bool)
  (cadence_low: "int option")
  (cadence_high: "int option")
  (name: string)
  (notes_step: string)
  (intensity: "Intensity option")
  (repeat_count: int)
  (repeat_steps: "WorkoutStep list")

text \<open>\<open>WorkoutStep.__post_init__\<close>, run by every construction of a step.\<close>

definition post_init :: "WorkoutStep \<Rightarrow> WorkoutStep" where
  "post_init s =
     WorkoutStep (step_type s) (duration_seconds s) (target_type s) (power_low_pct s)
       (if step_type s = StepType_STEADY \<and> power_high_pct s = 0
        then power_low_pct s else power_high_pct s)
       (hr_target_type s) (hr_low s) (hr_high s) (hr_is_percentage s)
       (cadence_low s)
       (if cadence_low s \<noteq> None \<and> cadence_high s = None
        then cadence_low s else cadence_high s)
       (name s) (notes_step s) (intensity s) (repeat_count s) (repeat_steps s)"

text \<open>The assignment \<open>step.intensity = manual_intensity\<close>.\<close>

definition set_intensity :: "Intensity \<Rightarrow> WorkoutStep \<Rightarrow> WorkoutStep" where
  "set_intensity i s =
     WorkoutStep (step_type s) (duration_seconds s) (target_type s) (power_low_pct s)
       (power_high_pct s) (hr_target_type s) (hr_low s) (hr_high s) (hr_is_percentage s)
       (cadence_low s) (cadence_high s) (name s) (notes_step s) (Some i)
       (repeat_count s) (repeat_steps s)"

record Workout =
  name_w :: string
  steps :: "WorkoutStep list"
  sport_w :: Sport

text \<open>
  The two messages the builder fills. A field the source never assigns stays \<open>None\<close>.
\<close>

record WorkoutMessage =
  workout_name :: string
  sport :: Sport
  num_valid_steps :: int

record WorkoutStepMessage =
  message_index :: int
  workout_step_name :: string
  notes_msg :: "string option"
  duration_type :: WorkoutStepDuration
  duration_value :: "int option"
  duration_step :: "int option"
  target_type_msg :: WorkoutStepTarget
  target_value :: "int option"
  custom_target_value_low :: "int option"
  custom_target_value_high :: "int option"
  intensity_msg :: Intensity

section \<open>Python primitives\<close>

text \<open>\<open>int(x)\<close> for a float \<open>x\<close>: truncation toward zero.\<close>

definition py_int :: "rat \<Rightarrow> int" where
  "py_int x = (if 0 \<le> x then \<lfloor>x\<rfloor> else \<lceil>x\<rceil>)"

text \<open>
  Rounding to a double. The number of binary digits of a positive integer gives the binary
  exponent \<open>floor_log2 x\<close> of a positive \<open>x\<close>, the largest \<open>e\<close> with \<open>2 ^ e \<le> x\<close>. A double
  has 53 significant bits, so its last bit weighs \<open>2 ^ (e - 52)\<close>, and never less than
  \<open>2 ^ - 1074\<close>, the weight of the last bit of the subnormal numbers. The value is rounded to
  a multiple of that weight, a tie going to the even multiple.
\<close>

function bits :: "int \<Rightarrow> int" where
  "bits n = (if n \<le> 0 then 0 else 1 + bits (n div 2))"
  by pat_completeness auto
termination by (relation "measure nat") auto

declare bits.simps [simp del]

definition pow2 :: "int \<Rightarrow> rat" where
  "pow2 e = (if 0 \<le> e then 2 ^ nat e else 1 / 2 ^ nat (- e))"

definition floor_log2 :: "rat \<Rightarrow> int" where
  "floor_log2 x = (if 1 \<le> x then bits \<lfloor>x\<rfloor> - 1 else - bits (\<lceil>1 / x\<rceil> - 1))"

definition round_half_even :: "rat \<Rightarrow> int" where
  "round_half_even x =
     (let f = \<lfloor>x\<rfloor>; d = x - of_int f
      in if d < 1 / 2 then f else if 1 / 2 < d then f + 1
         else if even f then f else f + 1)"

definition round_double :: "rat \<Rightarrow> rat" where
  "round_double x =
     (if x = 0 then 0
      else let q = max (floor_log2 \<bar>x\<bar> - 52) (- 1074)
           in of_int (round_half_even (x / pow2 q)) * pow2 q)"

text \<open>\<open>x + y\<close>, \<open>x * y\<close> and \<open>x / y\<close> on floats.\<close>

definition float_add :: "rat \<Rightarrow> rat \<Rightarrow> rat" where
  "float_add x y = round_double (x + y)"

definition float_mul :: "rat \<Rightarrow> rat \<Rightarrow> rat" where
  "float_mul x y = round_double (x * y)"

definition float_div :: "rat \<Rightarrow> rat \<Rightarrow> rat" where
  "float_div x y = round_double (x / y)"

text \<open>\<open>str(n)\<close> for an integer, in decimal.\<close>

definition digit_char :: "nat \<Rightarrow> char" where
  "digit_char d = ''0123456789'' ! d"

fun str_nat :: "nat \<Rightarrow> string" where
  "str_nat n = (if n < 10 then [digit_char n]
                else str_nat (n div 10) @ [digit_char (n mod 10)])"

declare str_nat.simps [simp del]

definition str_int :: "int \<Rightarrow> string" where
  "str_int i = (if i < 0 then CHR ''-'' # str_nat (nat (- i)) else str_nat (nat i))"

text \<open>\<open>str.lower()\<close> on code points below 256.\<close>

definition lower_char :: "char \<Rightarrow> char" where
  "lower_char c =
     (let n = (of_char c :: nat)
      in if (65 \<le> n \<and> n \<le> 90) \<or> (192 \<le> n \<and> n \<le> 222 \<and> n \<noteq> 215)
         then char_of (n + 32) else c)"

definition lower :: "string \<Rightarrow> string" where
  "lower s = map lower_char s"

text \<open>\<open>s.startswith(k)\<close> and \<open>k in s\<close> for strings.\<close>

fun startswith :: "string \<Rightarrow> string \<Rightarrow> bool" where
  "startswith s [] = True"
| "startswith [] (k # ks) = False"
| "startswith (c # cs) (k # ks) = (c = k \<and> startswith cs ks)"

fun str_in :: "string \<Rightarrow> string \<Rightarrow> bool" where
  "str_in k [] = (k = [])"
| "str_in k (c # cs) = (startswith (c # cs) k \<or> str_in k cs)"

text \<open>\<open>sep.join(parts)\<close>.\<close>

fun join :: "string \<Rightarrow> string list \<Rightarrow> string" where
  "join sep [] = []"
| "join sep [p] = p"
| "join sep (p # q # ps) = p @ sep @ join sep (q # ps)"

section \<open>FitWorkoutBuilder\<close>

definition FTP_SCALE :: rat where
  "FTP_SCALE = 1"

definition HR_ABSOLUTE_OFFSET :: int where
  "HR_ABSOLUTE_OFFSET = 100"

definition DURATION_MS_SCALE :: rat where
  "DURATION_MS_SCALE = 1000"

text \<open>\<open>(step.power_low_pct + step.power_high_pct) / 2\<close>, the average power of \<open>_get_intensity\<close>.\<close>

definition avg_power :: "WorkoutStep \<Rightarrow> rat" where
  "avg_power step = float_div (float_add (power_low_pct step) (power_high_pct step)) 2"

text \<open>\<open>_get_intensity\<close>.\<close>

definition get_intensity :: "WorkoutStep \<Rightarrow> Intensity" where
  "get_intensity step =
     (case intensity step of
        Some i \<Rightarrow> i
      | None \<Rightarrow>
          if step_type step = StepType_OPEN then Intensity_ACTIVE
          else if target_type step = TargetType_HEART_RATE then Intensity_ACTIVE
          else
            let avg_power = avg_power step
            in if step_type step = StepType_WARMUP \<or> str_in ''warmup'' (lower (name step))
               then Intensity_WARMUP
               else if step_type step = StepType_COOLDOWN
                       \<or> str_in ''cooldown'' (lower (name step))
               then Intensity_COOLDOWN
               else if step_type step = StepType_RECOVERY \<or> avg_power < 56
               then Intensity_RECOVERY
               else if avg_power \<ge> 106 then Intensity_INTERVAL
               else Intensity_ACTIVE)"

text \<open>The list \<open>notes_parts\<close> of \<open>_create_single_step\<close>.\<close>

definition notes_parts :: "WorkoutStep \<Rightarrow> string list" where
  "notes_parts step =
     (if notes_step step \<noteq> [] then [notes_step step] else []) @
     (case cadence_low step of
        None \<Rightarrow> []
      | Some lo \<Rightarrow>
          if cadence_low step = cadence_high step
          then [''Cadence: '' @ str_int lo @ '' rpm'']
          else [''Cadence: '' @ str_int lo @ ''-''
                @ (case cadence_high step of None \<Rightarrow> ''None'' | Some hi \<Rightarrow> str_int hi)
                @ '' rpm''])"

text \<open>
  \<open>_create_single_step\<close>. The counter \<open>self.step_index\<close> is passed in and returned
  incremented. The product of a double with \<open>FTP_SCALE\<close>, which is 1, is that double.
\<close>

definition create_single_step :: "int \<Rightarrow> WorkoutStep \<Rightarrow> WorkoutStepMessage \<times> int" where
  "create_single_step step_index step =
     (let idx = step_index;
          is_open = (target_type step = TargetType_OPEN \<or> step_type step = StepType_OPEN);
          is_hr = (target_type step = TargetType_HEART_RATE);
          msg = \<lparr> message_index = idx,
                  workout_step_name =
                    (if name step \<noteq> [] then name step else ''Step '' @ str_int (idx + 1)),
                  notes_msg =
                    (if notes_parts step \<noteq> [] then Some (join '' | '' (notes_parts step))
                     else None),
                  duration_type = WorkoutStepDuration_TIME,
                  duration_value =
                    Some (py_int (float_mul (duration_seconds step) DURATION_MS_SCALE)),
                  duration_step = None,
                  target_type_msg =
                    (if is_open then WorkoutStepTarget_OPEN
                     else if is_hr then WorkoutStepTarget_HEART_RATE
                     else WorkoutStepTarget_POWER),
                  target_value = Some 0,
                  custom_target_value_low =
                    (if is_open then None
                     else if is_hr then
                       (if hr_is_percentage step then Some (py_int (hr_low step))
                        else Some (py_int (hr_low step) + HR_ABSOLUTE_OFFSET))
                     else Some (py_int (power_low_pct step * FTP_SCALE))),
                  custom_target_value_high =
                    (if is_open then None
                     else if is_hr then
                       (if hr_is_percentage step then Some (py_int (hr_high step))
                        else Some (py_int (hr_high step) + HR_ABSOLUTE_OFFSET))
                     else Some (py_int (power_high_pct step * FTP_SCALE))),
                  intensity_msg = get_intensity step \<rparr>
      in (msg, step_index + 1))"

text \<open>The loop over \<open>step.repeat_steps\<close> in \<open>_create_repeat_steps\<close>.\<close>

fun inner_loop ::
  "WorkoutStep list \<Rightarrow> int \<Rightarrow> WorkoutStepMessage list \<Rightarrow> WorkoutStepMessage list \<times> int" where
  "inner_loop [] step_index messages = (messages, step_index)"
| "inner_loop (inner_step # rest) step_index messages =
     (case create_single_step step_index inner_step of
        (m, step_index') \<Rightarrow> inner_loop rest step_index' (messages @ [m]))"

text \<open>\<open>_create_repeat_steps\<close>.\<close>

definition create_repeat_steps :: "int \<Rightarrow> WorkoutStep \<Rightarrow> WorkoutStepMessage list \<times> int" where
  "create_repeat_steps step_index step =
     (let inner_start_index = step_index
      in case inner_loop (repeat_steps step) step_index [] of
           (messages, step_index1) \<Rightarrow>
             let repeat_msg =
               \<lparr> message_index = step_index1,
                 workout_step_name = ''Repeat '' @ str_int (repeat_count step) @ ''x'',
                 notes_msg = None,
                 duration_type = WorkoutStepDuration_REPEAT_UNTIL_STEPS_CMPLT,
                 duration_value = None,
                 duration_step = Some inner_start_index,
                 target_type_msg = WorkoutStepTarget_OPEN,
                 target_value = Some (repeat_count step),
                 custom_target_value_low = None,
                 custom_target_value_high = None,
                 intensity_msg = Intensity_ACTIVE \<rparr>
             in (messages @ [repeat_msg], step_index1 + 1))"

text \<open>The loop of \<open>_create_workout_steps\<close>, and the method, which resets the counter.\<close>

fun steps_loop ::
  "WorkoutStep list \<Rightarrow> int \<Rightarrow> WorkoutStepMessage list \<Rightarrow> WorkoutStepMessage list \<times> int" where
  "steps_loop [] step_index messages = (messages, step_index)"
| "steps_loop (step # rest) step_index messages =
     (if step_type step = StepType_REPEAT
      then (case create_repeat_steps step_index step of
              (ms, step_index') \<Rightarrow> steps_loop rest step_index' (messages @ ms))
      else (case create_single_step step_index step of
              (m, step_index') \<Rightarrow> steps_loop rest step_index' (messages @ [m])))"

definition create_workout_steps :: "Workout \<Rightarrow> WorkoutStepMessage list" where
  "create_workout_steps workout = fst (steps_loop (steps workout) 0 [])"

text \<open>\<open>_count_valid_steps\<close>: the loop with its accumulator, and the method.\<close>

fun count_loop :: "WorkoutStep list \<Rightarrow> int \<Rightarrow> int" where
  "count_loop [] count = count"
| "count_loop (step # rest) count =
     (if step_type step = StepType_REPEAT
      then count_loop rest (count + (1 + int (length (repeat_steps step))))
      else count_loop rest (count + 1))"

definition count_valid_steps :: "Workout \<Rightarrow> int" where
  "count_valid_steps workout = count_loop (steps workout) 0"

text \<open>\<open>_create_workout_message\<close>.\<close>

definition create_workout_message :: "Workout \<Rightarrow> WorkoutMessage" where
  "create_workout_message workout =
     \<lparr> workout_name = name_w workout,
       sport = sport_w workout,
       num_valid_steps = count_valid_steps workout \<rparr>"

section \<open>The specification's reading of two encoder rules\<close>

text \<open>
  The rounding policy in the words of the specification (round half away from zero), to be
  compared with what the encoder computes.
\<close>

definition round_half_away_from_zero :: "rat \<Rightarrow> int" where
  "round_half_away_from_zero x = (if 0 \<le> x then \<lfloor>x + 1 / 2\<rfloor> else \<lceil>x - 1 / 2\<rceil>)"

text \<open>
  The intensity resolution in the words of the specification: override, open step,
  heart-rate target, warmup and cooldown hints, then the average power alone. The average is
  the one the encoder computes, in floating point.
\<close>

definition spec_intensity :: "WorkoutStep \<Rightarrow> Intensity" where
  "spec_intensity step =
     (case intensity step of
        Some i \<Rightarrow> i
      | None \<Rightarrow>
          if step_type step = StepType_OPEN then Intensity_ACTIVE
          else if target_type step = TargetType_HEART_RATE then Intensity_ACTIVE
          else if step_type step = StepType_WARMUP \<or> str_in ''warmup'' (lower (name step))
          then Intensity_WARMUP
          else if step_type step = StepType_COOLDOWN \<or> str_in ''cooldown'' (lower (name step))
          then Intensity_COOLDOWN
          else if avg_power step < 56 then Intensity_RECOVERY
          else if avg_power step \<ge> 106 then Intensity_INTERVAL
          else Intensity_ACTIVE)"


section \<open>Regular expressions, as Python's backtracking matcher runs them\<close>

text \<open>
  The patterns of the parser use character classes, greedy repetition of a class, sequence,
  ordered alternation, the greedy optional group, capturing groups and the anchor \<open>^\<close>.
  The matcher lists every way a pattern can match at the start of a string, in the order in
  which a backtracking matcher tries them: the first element is the match Python reports.
  Each way is the text left after the match together with the groups captured.
\<close>

type_synonym groups = "nat \<Rightarrow> string option"

datatype regex =
    Eps
  | Cls "char \<Rightarrow> bool"
  | Star "char \<Rightarrow> bool"
  | Plus "char \<Rightarrow> bool"
  | Seq regex regex
  | Alt regex regex
  | Opt regex
  | Group nat regex
  | Bol

text \<open>Greedy \<open>c*\<close>: the longest run first, then one character less at a time.\<close>

fun star_ms :: "(char \<Rightarrow> bool) \<Rightarrow> string \<Rightarrow> string list" where
  "star_ms p [] = [[]]"
| "star_ms p (c # cs) = (if p c then star_ms p cs @ [c # cs] else [c # cs])"

fun ms :: "nat \<Rightarrow> regex \<Rightarrow> string \<Rightarrow> groups \<Rightarrow> (string \<times> groups) list" where
  "ms n0 Eps s g = [(s, g)]"
| "ms n0 (Cls p) s g = (case s of [] \<Rightarrow> [] | c # cs \<Rightarrow> if p c then [(cs, g)] else [])"
| "ms n0 (Star p) s g = map (\<lambda>r. (r, g)) (star_ms p s)"
| "ms n0 (Plus p) s g =
     (case s of [] \<Rightarrow> [] | c # cs \<Rightarrow> if p c then map (\<lambda>r. (r, g)) (star_ms p cs) else [])"
| "ms n0 (Seq r1 r2) s g = concat (map (\<lambda>(s', g'). ms n0 r2 s' g') (ms n0 r1 s g))"
| "ms n0 (Alt r1 r2) s g = ms n0 r1 s g @ ms n0 r2 s g"
| "ms n0 (Opt r) s g = ms n0 r s g @ [(s, g)]"
| "ms n0 (Group k r) s g =
     map (\<lambda>(s', g'). (s', g'(k \<mapsto> take (length s - length s') s))) (ms n0 r s g)"
| "ms n0 Bol s g = (if length s = n0 then [(s, g)] else [])"

text \<open>
  A match object: \<open>start()\<close>, \<open>end()\<close> and the groups. \<open>pattern.match\<close> tries the start of
  the string only, \<open>pattern.search\<close> every position from left to right.
\<close>

type_synonym match = "nat \<times> nat \<times> groups"

definition first_way :: "nat \<Rightarrow> regex \<Rightarrow> string \<Rightarrow> groups \<Rightarrow> (string \<times> groups) option" where
  "first_way n0 r s g = (case ms n0 r s g of [] \<Rightarrow> None | w # _ \<Rightarrow> Some w)"

definition match_at :: "regex \<Rightarrow> string \<Rightarrow> string \<Rightarrow> match option" where
  "match_at r whole s =
     (case first_way (length whole) r s Map.empty of
        None \<Rightarrow> None
      | Some (rest, g) \<Rightarrow> Some (length whole - length s, length whole - length rest, g))"

fun search_from :: "regex \<Rightarrow> string \<Rightarrow> string \<Rightarrow> match option" where
  "search_from r whole [] = match_at r whole []"
| "search_from r whole (c # cs) =
     (case match_at r whole (c # cs) of
        Some m \<Rightarrow> Some m
      | None \<Rightarrow> search_from r whole cs)"

definition re_match :: "regex \<Rightarrow> string \<Rightarrow> match option" where
  "re_match r s = match_at r s s"

definition re_search :: "regex \<Rightarrow> string \<Rightarrow> match option" where
  "re_search r s = search_from r s s"

text \<open>
  \<open>m.group(k)\<close> for a group that takes part in every match of its pattern; a group that may
  be absent is read with \<open>case\<close>.
\<close>

definition group :: "groups \<Rightarrow> nat \<Rightarrow> string" where
  "group g k = (case g k of Some s \<Rightarrow> s | None \<Rightarrow> [])"

subsection \<open>Character classes\<close>

definition is_digit :: "char \<Rightarrow> bool" where
  "is_digit c = (48 \<le> (of_char c :: nat) \<and> (of_char c :: nat) \<le> 57)"

text \<open>\<open>\s\<close> and \<open>str.isspace\<close> on code points below 256.\<close>

definition is_space :: "char \<Rightarrow> bool" where
  "is_space c = ((of_char c :: nat) \<in> set [9, 10, 11, 12, 13, 28, 29, 30, 31, 32, 133, 160])"

text \<open>
  The class of dashes. Its en dash and em dash are code points above 255, which the strings
  of this model do not hold; the hyphen remains.
\<close>

definition is_dash :: "char \<Rightarrow> bool" where
  "is_dash c = (c = CHR ''-'')"

definition not_quote :: "char \<Rightarrow> bool" where
  "not_quote c = (c \<noteq> CHR 0x22)"

text \<open>A literal character under \<open>re.IGNORECASE\<close>.\<close>

definition ci :: "char \<Rightarrow> char \<Rightarrow> bool" where
  "ci p c = (lower_char c = lower_char p)"

fun lit :: "string \<Rightarrow> regex" where
  "lit [] = Eps"
| "lit [c] = Cls (ci c)"
| "lit (c # d # cs) = Seq (Cls (ci c)) (lit (d # cs))"

fun seqs :: "regex list \<Rightarrow> regex" where
  "seqs [] = Eps"
| "seqs [r] = r"
| "seqs (r # q # rs) = Seq r (seqs (q # rs))"

subsection \<open>The patterns of WorkoutParser\<close>

text \<open>\<open>\d+(?:\.\d+)?\<close>\<close>

definition number :: regex where
  "number = Seq (Plus is_digit) (Opt (Seq (Cls (ci CHR ''.'')) (Plus is_digit)))"

text \<open>\<open>s|sec|seconds?|m|min|minutes?|h|hr|hours?\<close>\<close>

definition unit_alternatives :: regex where
  "unit_alternatives =
     Alt (lit ''s'')
    (Alt (lit ''sec'')
    (Alt (Seq (lit ''second'') (Opt (lit ''s'')))
    (Alt (lit ''m'')
    (Alt (lit ''min'')
    (Alt (Seq (lit ''minute'') (Opt (lit ''s'')))
    (Alt (lit ''h'')
    (Alt (lit ''hr'')
         (Seq (lit ''hour'') (Opt (lit ''s''))))))))))"

text \<open>\<open>(\d+(?:\.\d+)?)\s*(s|sec|seconds?|m|min|minutes?|h|hr|hours?)\<close>\<close>

definition DURATION_PATTERN :: regex where
  "DURATION_PATTERN = seqs [Group 1 number, Star is_space, Group 2 unit_alternatives]"

text \<open>\<open>\s*%\s*(?:of\s+)?ftp\<close>, the common end of the power patterns.\<close>

definition pct_ftp :: "regex list" where
  "pct_ftp = [Star is_space, Cls (ci CHR ''%''), Star is_space,
              Opt (Seq (lit ''of'') (Plus is_space)), lit ''ftp'']"

text \<open>\<open>(\d+(?:\.\d+)?)\s*%\s*(?:of\s+)?ftp\<close>\<close>

definition POWER_STEADY_PATTERN :: regex where
  "POWER_STEADY_PATTERN = seqs (Group 1 number # pct_ftp)"

text \<open>\<open>(\d+(?:\.\d+)?)\s*%?\s*[-]+\s*(\d+(?:\.\d+)?)\s*%\s*(?:of\s+)?ftp\<close>\<close>

definition POWER_RAMP_PATTERN :: regex where
  "POWER_RAMP_PATTERN =
     seqs ([Group 1 number, Star is_space, Opt (Cls (ci CHR ''%'')), Star is_space,
            Plus is_dash, Star is_space, Group 2 number] @ pct_ftp)"

text \<open>\<open>(\d+(?:\.\d+)?)\s*[-]+\s*(\d+(?:\.\d+)?)\s*%\s*(?:of\s+)?ftp\<close>\<close>

definition POWER_RANGE_PATTERN :: regex where
  "POWER_RANGE_PATTERN =
     seqs ([Group 1 number, Star is_space, Plus is_dash, Star is_space, Group 2 number]
           @ pct_ftp)"

text \<open>\<open>(?:\s*[-]+\s*(\d+))?\<close>, the optional upper bound of a band of integers.\<close>

definition upper_bound :: regex where
  "upper_bound = Opt (seqs [Star is_space, Plus is_dash, Star is_space, Group 2 (Plus is_digit)])"

text \<open>\<open>@\s*(\d+)(?:\s*[-]+\s*(\d+))?\s*rpm\<close>\<close>

definition CADENCE_PATTERN :: regex where
  "CADENCE_PATTERN =
     seqs [Cls (ci CHR ''@''), Star is_space, Group 1 (Plus is_digit), upper_bound,
           Star is_space, lit ''rpm'']"

text \<open>\<open>(\d+)(?:\s*[-]+\s*(\d+))?\s*bpm\<close>\<close>

definition HR_ABSOLUTE_PATTERN :: regex where
  "HR_ABSOLUTE_PATTERN =
     seqs [Group 1 (Plus is_digit), upper_bound, Star is_space, lit ''bpm'']"

text \<open>\<open>(\d+)(?:\s*[-]+\s*(\d+))?\s*%\s*(?:max\s*)?hr\<close>\<close>

definition HR_PERCENTAGE_PATTERN :: regex where
  "HR_PERCENTAGE_PATTERN =
     seqs [Group 1 (Plus is_digit), upper_bound, Star is_space, Cls (ci CHR ''%''),
           Star is_space, Opt (Seq (lit ''max'') (Star is_space)), lit ''hr'']"

text \<open>\<open>"([^"]+)"\<close>\<close>

definition NOTES_PATTERN :: regex where
  "NOTES_PATTERN = seqs [Cls (ci CHR 0x22), Group 1 (Plus not_quote), Cls (ci CHR 0x22)]"

text \<open>\<open>^(\d+)\s*x\s+\<close>\<close>

definition REPEAT_PATTERN :: regex where
  "REPEAT_PATTERN =
     seqs [Bol, Group 1 (Plus is_digit), Star is_space, lit ''x'', Plus is_space]"

section \<open>More Python primitives, for the parser\<close>

text \<open>
  \<open>int(s)\<close> and \<open>float(s)\<close> on the strings the patterns capture: a run of digits, and a run
  of digits with an optional fraction.
\<close>

definition digit_value :: "char \<Rightarrow> int" where
  "digit_value c = of_char c - 48"

definition int_of_str :: "string \<Rightarrow> int" where
  "int_of_str s = foldl (\<lambda>n c. 10 * n + digit_value c) 0 s"

definition float_of_str :: "string \<Rightarrow> rat" where
  "float_of_str s =
     (let whole = takeWhile (\<lambda>c. c \<noteq> CHR ''.'') s;
          fraction = drop (length whole + 1) s
      in round_double
           (of_int (int_of_str whole) + of_int (int_of_str fraction) / 10 ^ length fraction))"

text \<open>\<open>s.strip()\<close>.\<close>

definition strip :: "string \<Rightarrow> string" where
  "strip s = rev (dropWhile is_space (rev (dropWhile is_space s)))"

text \<open>The format \<open>{x:.0f}\<close>: the nearest integer, ties to the even one.\<close>

definition fmt0 :: "rat \<Rightarrow> string" where
  "fmt0 x = (if x < 0 \<and> round_half_even x = 0 then ''-0'' else str_int (round_half_even x))"

section \<open>WorkoutParser\<close>

datatype error = WorkoutParseError string | ValueError string

text \<open>The two keyword dictionaries, in their insertion order.\<close>

definition SPECIAL_KEYWORDS :: "(string \<times> StepType) list" where
  "SPECIAL_KEYWORDS =
     [(''warmup'', StepType_WARMUP), (''warm-up'', StepType_WARMUP),
      (''warm up'', StepType_WARMUP), (''cooldown'', StepType_COOLDOWN),
      (''cool-down'', StepType_COOLDOWN), (''cool down'', StepType_COOLDOWN),
      (''recovery'', StepType_RECOVERY), (''rest'', StepType_RECOVERY),
      (''open'', StepType_OPEN), (''free'', StepType_OPEN),
      (''free ride'', StepType_OPEN), (''freeride'', StepType_OPEN)]"

definition INTENSITY_KEYWORDS :: "(string \<times> Intensity) list" where
  "INTENSITY_KEYWORDS =
     [(''warmup'', Intensity_WARMUP), (''warm-up'', Intensity_WARMUP),
      (''cooldown'', Intensity_COOLDOWN), (''cool-down'', Intensity_COOLDOWN),
      (''recovery'', Intensity_RECOVERY), (''rest'', Intensity_RECOVERY),
      (''easy'', Intensity_RECOVERY), (''endurance'', Intensity_ACTIVE),
      (''tempo'', Intensity_ACTIVE), (''threshold'', Intensity_ACTIVE),
      (''sweetspot'', Intensity_ACTIVE), (''sweet spot'', Intensity_ACTIVE),
      (''vo2'', Intensity_INTERVAL), (''vo2max'', Intensity_INTERVAL),
      (''interval'', Intensity_INTERVAL), (''sprint'', Intensity_INTERVAL),
      (''anaerobic'', Intensity_INTERVAL)]"

text \<open>
  The loops \<open>for keyword, value in D.items(): if keyword in lower_line: ...\<close>, which stop at
  the first keyword found.
\<close>

fun first_keyword :: "(string \<times> 'a) list \<Rightarrow> string \<Rightarrow> 'a option" where
  "first_keyword [] lower_line = None"
| "first_keyword ((keyword, v) # rest) lower_line =
     (if str_in keyword lower_line then Some v else first_keyword rest lower_line)"

text \<open>\<open>_parse_duration\<close>.\<close>

definition parse_duration :: "string \<Rightarrow> rat option" where
  "parse_duration line =
     (case re_search DURATION_PATTERN line of
        None \<Rightarrow> None
      | Some (_, _, g) \<Rightarrow>
          let v = float_of_str (group g 1);
              unit = lower (group g 2)
          in if unit \<in> set [''s'', ''sec'', ''second'', ''seconds''] then Some v
             else if unit \<in> set [''m'', ''min'', ''minute'', ''minutes'']
             then Some (float_mul v 60)
             else if unit \<in> set [''h'', ''hr'', ''hour'', ''hours'']
             then Some (float_mul v 3600)
             else None)"

text \<open>\<open>str(step_type)\<close> for a member of \<open>StepType\<close>.\<close>

definition StepType_str :: "StepType \<Rightarrow> string" where
  "StepType_str st =
     ''StepType.'' @
     (case st of
        StepType_STEADY \<Rightarrow> ''STEADY'' | StepType_RAMP \<Rightarrow> ''RAMP''
      | StepType_RANGE \<Rightarrow> ''RANGE'' | StepType_OPEN \<Rightarrow> ''OPEN''
      | StepType_WARMUP \<Rightarrow> ''WARMUP'' | StepType_COOLDOWN \<Rightarrow> ''COOLDOWN''
      | StepType_RECOVERY \<Rightarrow> ''RECOVERY'' | StepType_REPEAT \<Rightarrow> ''REPEAT'')"

text \<open>
  \<open>_create_special_step\<close>. \<open>notes or d\<close> is \<open>d\<close> when \<open>notes\<close> is empty.
\<close>

definition create_special_step :: "StepType \<Rightarrow> rat \<Rightarrow> string \<Rightarrow> error + WorkoutStep" where
  "create_special_step st duration notes =
     (if st = StepType_WARMUP then
        Inr (post_init (WorkoutStep StepType_RAMP duration TargetType_POWER 40 75
               None 0 0 False None None ''Warmup''
               (if notes \<noteq> [] then notes else ''Easy spin, gradually increase effort'')
               (Some Intensity_WARMUP) 1 []))
      else if st = StepType_COOLDOWN then
        Inr (post_init (WorkoutStep StepType_RAMP duration TargetType_POWER 65 40
               None 0 0 False None None ''Cooldown''
               (if notes \<noteq> [] then notes else ''Easy spin, relax'')
               (Some Intensity_COOLDOWN) 1 []))
      else if st = StepType_RECOVERY then
        Inr (post_init (WorkoutStep StepType_STEADY duration TargetType_POWER 50 50
               None 0 0 False None None ''Recovery''
               (if notes \<noteq> [] then notes else ''Easy spinning, recover'')
               (Some Intensity_RECOVERY) 1 []))
      else if st = StepType_OPEN then
        Inr (post_init (WorkoutStep StepType_OPEN duration TargetType_OPEN 0 0
               None 0 0 False None None ''Free Ride''
               (if notes \<noteq> [] then notes else ''Ride at your own pace'')
               (Some Intensity_ACTIVE) 1 []))
      else Inl (ValueError (''Unknown special step type: '' @ StepType_str st)))"

text \<open>
  The pieces of \<open>_parse_line\<close>, in the order of the source.

  The notes: the first quoted run is cut out of the line.
\<close>

definition extract_notes :: "string \<Rightarrow> string \<times> string" where
  "extract_notes line =
     (case re_search NOTES_PATTERN line of
        None \<Rightarrow> ([], line)
      | Some (start, end', g) \<Rightarrow> (group g 1, take start line @ drop end' line))"

text \<open>The repeat prefix: the count, and the rest of the line stripped.\<close>

definition extract_repeat :: "string \<Rightarrow> int \<times> string" where
  "extract_repeat line =
     (case re_match REPEAT_PATTERN line of
        None \<Rightarrow> (1, line)
      | Some (_, end', g) \<Rightarrow> (int_of_str (group g 1), strip (drop end' line)))"

text \<open>
  \<open>if manual_intensity: step.intensity = manual_intensity\<close>. A member of the library's
  enumeration is taken to be true, as the members of a plain \<open>Enum\<close> are.
\<close>

definition apply_manual_intensity :: "Intensity option \<Rightarrow> WorkoutStep \<Rightarrow> WorkoutStep" where
  "apply_manual_intensity manual_intensity step =
     (case manual_intensity of None \<Rightarrow> step | Some i \<Rightarrow> set_intensity i step)"

text \<open>
  \<open>if repeat_count > 1: return WorkoutStep(step_type=StepType.REPEAT, ...)\<close> and
  \<open>return step\<close>, which end both branches of \<open>_parse_line\<close> in the same words.
\<close>

definition wrap_repeat :: "int \<Rightarrow> WorkoutStep \<Rightarrow> WorkoutStep" where
  "wrap_repeat repeat_count' step =
     (if repeat_count' > 1 then
        post_init (WorkoutStep StepType_REPEAT 0 TargetType_POWER 0 0
          None 0 0 False None None (str_int repeat_count' @ ''x '' @ name step) []
          None repeat_count' [step])
      else step)"

text \<open>The cadence band: \<open>(cadence_low, cadence_high)\<close>.\<close>

definition parse_cadence :: "string \<Rightarrow> int option \<times> int option" where
  "parse_cadence line =
     (case re_search CADENCE_PATTERN line of
        None \<Rightarrow> (None, None)
      | Some (_, _, g) \<Rightarrow>
          let cadence_low' = int_of_str (group g 1)
          in (Some cadence_low',
              (case g 2 of
                 None \<Rightarrow> Some cadence_low'
               | Some s \<Rightarrow> if s \<noteq> [] then Some (int_of_str s) else Some cadence_low')))"

text \<open>
  The heart-rate target: \<open>(hr_low, hr_high, hr_is_pct, hr_target_type)\<close>, the percentage
  pattern before the absolute one.
\<close>

definition hr_of_match :: "groups \<Rightarrow> rat \<times> rat" where
  "hr_of_match g =
     (let hr_low' = float_of_str (group g 1)
      in (hr_low',
          (case g 2 of
             None \<Rightarrow> hr_low'
           | Some s \<Rightarrow> if s \<noteq> [] then float_of_str s else hr_low')))"

definition parse_hr :: "string \<Rightarrow> rat \<times> rat \<times> bool \<times> TargetType option" where
  "parse_hr line =
     (case re_search HR_PERCENTAGE_PATTERN line of
        Some (_, _, g) \<Rightarrow>
          (fst (hr_of_match g), snd (hr_of_match g), True, Some TargetType_HEART_RATE)
      | None \<Rightarrow>
          (case re_search HR_ABSOLUTE_PATTERN line of
             Some (_, _, g) \<Rightarrow>
               (fst (hr_of_match g), snd (hr_of_match g), False, Some TargetType_HEART_RATE)
           | None \<Rightarrow> (0, 0, False, None)))"

text \<open>
  The part of \<open>_parse_line\<close> after the special keywords: duration, cadence, heart rate, and
  the chain \<open>if ramp_match ... elif range_match ... elif steady_match ... elif hr_target_type
  ... else raise\<close>.
\<close>

definition parse_target_step :: "string \<Rightarrow> string \<Rightarrow> string \<Rightarrow> error + WorkoutStep" where
  "parse_target_step original_line line notes =
     (case parse_duration line of
        None \<Rightarrow> Inl (WorkoutParseError (''No duration found in: '' @ original_line))
      | Some duration \<Rightarrow>
          (case parse_cadence line of (cadence_low', cadence_high') \<Rightarrow>
          (case parse_hr line of (hr_low', hr_high', hr_is_pct, hr_target_type') \<Rightarrow>
          (case re_search POWER_RAMP_PATTERN line of
             Some (_, _, g) \<Rightarrow>
               let power_low = float_of_str (group g 1);
                   power_high = float_of_str (group g 2)
               in Inr (post_init (WorkoutStep StepType_RAMP duration TargetType_POWER
                         power_low power_high hr_target_type' hr_low' hr_high' hr_is_pct
                         cadence_low' cadence_high'
                         (''Ramp '' @ fmt0 power_low @ ''%-'' @ fmt0 power_high @ ''%'')
                         notes None 1 []))
           | None \<Rightarrow>
          (case re_search POWER_RANGE_PATTERN line of
             Some (_, _, g) \<Rightarrow>
               let power_low = float_of_str (group g 1);
                   power_high = float_of_str (group g 2)
               in Inr (post_init (WorkoutStep StepType_RANGE duration TargetType_POWER
                         power_low power_high hr_target_type' hr_low' hr_high' hr_is_pct
                         cadence_low' cadence_high'
                         (fmt0 power_low @ ''-'' @ fmt0 power_high @ ''% FTP'')
                         notes None 1 []))
           | None \<Rightarrow>
          (case re_search POWER_STEADY_PATTERN line of
             Some (_, _, g) \<Rightarrow>
               let power = float_of_str (group g 1)
               in Inr (post_init (WorkoutStep StepType_STEADY duration TargetType_POWER
                         power power hr_target_type' hr_low' hr_high' hr_is_pct
                         cadence_low' cadence_high'
                         (fmt0 power @ ''% FTP'')
                         notes None 1 []))
           | None \<Rightarrow>
               if hr_target_type' \<noteq> None then
                 Inr (post_init (WorkoutStep StepType_STEADY duration TargetType_HEART_RATE
                        0 0 hr_target_type' hr_low' hr_high' hr_is_pct
                        cadence_low' cadence_high'
                        (if hr_is_pct
                         then (if hr_low' \<noteq> hr_high'
                               then fmt0 hr_low' @ ''%-'' @ fmt0 hr_high' @ ''% HR''
                               else fmt0 hr_low' @ ''% HR'')
                         else (if hr_low' \<noteq> hr_high'
                               then fmt0 hr_low' @ ''-'' @ fmt0 hr_high' @ '' bpm''
                               else fmt0 hr_low' @ '' bpm''))
                        notes None 1 []))
               else Inl (WorkoutParseError
                           (''No power or HR target found in: '' @ original_line))))))))"

text \<open>\<open>_parse_line\<close>, from the repeat prefix on, and the whole of it.\<close>

definition parse_after_notes :: "string \<Rightarrow> string \<Rightarrow> string \<Rightarrow> error + WorkoutStep" where
  "parse_after_notes original_line notes line1 =
     (case extract_repeat line1 of (repeat_count', line) \<Rightarrow>
        let lower_line = lower line;
            manual_intensity = first_keyword INTENSITY_KEYWORDS lower_line
        in (case first_keyword SPECIAL_KEYWORDS lower_line of
              Some st \<Rightarrow>
                (case parse_duration line of
                   None \<Rightarrow>
                     Inl (WorkoutParseError (''No duration found in: '' @ original_line))
                 | Some duration \<Rightarrow>
                     (case create_special_step st duration notes of
                        Inl e \<Rightarrow> Inl e
                      | Inr step \<Rightarrow>
                          Inr (wrap_repeat repeat_count'
                                 (apply_manual_intensity manual_intensity step))))
            | None \<Rightarrow>
                (case parse_target_step original_line line notes of
                   Inl e \<Rightarrow> Inl e
                 | Inr step \<Rightarrow>
                     Inr (wrap_repeat repeat_count'
                            (apply_manual_intensity manual_intensity step)))))"

definition parse_line :: "string \<Rightarrow> error + WorkoutStep" where
  "parse_line original_line =
     (case extract_notes original_line of
        (notes, line) \<Rightarrow> parse_after_notes original_line notes line)"

text \<open>\<open>parse\<close>: \<open>text.split('\n')\<close>, \<open>str(e)\<close>, the loop over the lines and the method.\<close>

fun split_lines :: "string \<Rightarrow> string list" where
  "split_lines [] = [[]]"
| "split_lines (c # cs) =
     (if c = CHR 0x0A then [] # split_lines cs
      else (case split_lines cs of [] \<Rightarrow> [[c]] | l # ls \<Rightarrow> (c # l) # ls))"

definition error_text :: "error \<Rightarrow> string" where
  "error_text e = (case e of WorkoutParseError m \<Rightarrow> m | ValueError m \<Rightarrow> m)"

fun parse_loop :: "nat \<Rightarrow> string list \<Rightarrow> WorkoutStep list \<Rightarrow> error + WorkoutStep list" where
  "parse_loop line_num [] steps' = Inr steps'"
| "parse_loop line_num (line # rest) steps' =
     (if startswith line ''#'' \<or> startswith line ''//''
      then parse_loop (line_num + 1) rest steps'
      else (case parse_line line of
              Inl e \<Rightarrow>
                Inl (WorkoutParseError
                       (''Line '' @ str_nat line_num @ '': Failed to parse '' @ [CHR 0x27]
                        @ line @ [CHR 0x27] @ '' - '' @ error_text e))
            | Inr step \<Rightarrow> parse_loop (line_num + 1) rest (steps' @ [step])))"

definition parse :: "string \<Rightarrow> error + WorkoutStep list" where
  "parse text =
     (case parse_loop 1 (filter (\<lambda>l. l \<noteq> []) (map strip (split_lines (strip text)))) [] of
        Inl e \<Rightarrow> Inl e
      | Inr steps' \<Rightarrow>
          if steps' = [] then Inl (WorkoutParseError ''No valid workout steps found'')
          else Inr steps')"

section \<open>Notions used to state the properties of the parser\<close>

text \<open>
  A step with its notes blanked, and a step with its notes and those of its inner steps
  blanked: two steps that agree under \<open>without_notes\<close> differ in their notes at most.
\<close>

definition clear_notes :: "WorkoutStep \<Rightarrow> WorkoutStep" where
  "clear_notes s =
     WorkoutStep (step_type s) (duration_seconds s) (target_type s) (power_low_pct s)
       (power_high_pct s) (hr_target_type s) (hr_low s) (hr_high s) (hr_is_percentage s)
       (cadence_low s) (cadence_high s) (name s) [] (intensity s)
       (repeat_count s) (repeat_steps s)"

definition without_notes :: "WorkoutStep \<Rightarrow> WorkoutStep" where
  "without_notes s =
     WorkoutStep (step_type s) (duration_seconds s) (target_type s) (power_low_pct s)
       (power_high_pct s) (hr_target_type s) (hr_low s) (hr_high s) (hr_is_percentage s)
       (cadence_low s) (cadence_high s) (name s) [] (intensity s)
       (repeat_count s) (map clear_notes (repeat_steps s))"

text \<open>
  The two numbers a power pattern captures on a line, when it matches: \<open>group(1)\<close> and
  \<open>group(2)\<close> of the match \<open>pattern.search(line)\<close> returns.
\<close>

definition matched_numbers :: "regex \<Rightarrow> string \<Rightarrow> (string \<times> string) option" where
  "matched_numbers r line =
     map_option (\<lambda>(_, _, g). (group g 1, group g 2)) (re_search r line)"

section \<open>Properties of the rounding to a double\<close>

text \<open>
  \<open>floor_log2\<close> is the binary exponent, and \<open>round_double x\<close> is a multiple of the weight of
  the last bit at that exponent, with a multiplier of at most 53 bits, at a distance from
  \<open>x\<close> of at most half that weight: a double nearest to \<open>x\<close>.
\<close>

lemma bits_bounds:
  "0 < n \<Longrightarrow> 1 \<le> bits n \<and> 2 ^ nat (bits n - 1) \<le> n \<and> n < 2 ^ nat (bits n)"
proof (induction n rule: bits.induct)
  case (1 n)
  show ?case
  proof (cases "n div 2 = 0")
    case True
    with 1 have n: "n = 1" by auto
    have "bits 1 = 1" by (simp add: bits.simps [of 1] bits.simps [of 0])
    with n show ?thesis by simp
  next
    case False
    let ?m = "n div 2"
    from 1 False have m: "0 < ?m" by auto
    from 1 m have ih: "1 \<le> bits ?m" "2 ^ nat (bits ?m - 1) \<le> ?m" "?m < 2 ^ nat (bits ?m)"
      by auto
    have b: "bits n = 1 + bits ?m" using 1(2) by (simp add: bits.simps [of n])
    have e1: "nat (bits n - 1) = Suc (nat (bits ?m - 1))" using ih(1) b by simp
    have e2: "nat (bits n) = Suc (nat (bits ?m))" using ih(1) b by simp
    have "2 * ?m \<le> n" "n < 2 * ?m + 2" by auto
    with ih show ?thesis unfolding e1 e2 using b by auto
  qed
qed

lemma pow2_pos: "0 < pow2 e"
  by (simp add: pow2_def)

lemma pow2_powi: "pow2 e = 2 powi e"
  by (simp add: pow2_def power_int_def field_simps)

lemma pow2_add: "pow2 (a + b) = pow2 a * pow2 b"
  by (simp add: pow2_powi power_int_add)

lemma pow2_mono: "a \<le> b \<Longrightarrow> pow2 a \<le> pow2 b"
  by (simp add: pow2_powi power_int_increasing)

lemma floor_log2_bounds:
  assumes "0 < x"
  shows "pow2 (floor_log2 x) \<le> x \<and> x < pow2 (floor_log2 x + 1)"
proof (cases "1 \<le> x")
  case True
  let ?n = "\<lfloor>x\<rfloor>"
  from True have n: "0 < ?n" by simp
  note b = bits_bounds [OF n]
  have e: "floor_log2 x = bits ?n - 1" using True by (simp add: floor_log2_def)
  have "(2::rat) ^ nat (bits ?n - 1) \<le> of_int ?n"
    using b by (metis of_int_le_iff of_int_numeral of_int_power)
  also have "\<dots> \<le> x" by simp
  finally have lo: "pow2 (floor_log2 x) \<le> x" using b by (simp add: e pow2_def)
  have "?n + 1 \<le> 2 ^ nat (bits ?n)" using b by simp
  then have "(of_int (?n + 1) :: rat) \<le> 2 ^ nat (bits ?n)"
    by (metis of_int_le_iff of_int_numeral of_int_power)
  moreover have "x < of_int (?n + 1)" by linarith
  ultimately have "x < 2 ^ nat (bits ?n)" by linarith
  then have hi: "x < pow2 (floor_log2 x + 1)" using b by (simp add: e pow2_def)
  from lo hi show ?thesis ..
next
  case False
  let ?y = "1 / x"
  let ?m = "\<lceil>?y\<rceil>"
  from False assms have y: "1 < ?y" by (simp add: field_simps)
  then have m: "0 < ?m - 1" by linarith
  note b = bits_bounds [OF m]
  let ?k = "bits (?m - 1)"
  have e: "floor_log2 x = - ?k" using False by (simp add: floor_log2_def)
  have "?m \<le> 2 ^ nat ?k" using b by simp
  then have "(of_int ?m :: rat) \<le> 2 ^ nat ?k"
    by (metis of_int_le_iff of_int_numeral of_int_power)
  moreover have "?y \<le> of_int ?m" by simp
  ultimately have "?y \<le> 2 ^ nat ?k" by linarith
  then have "1 / 2 ^ nat ?k \<le> x" using assms by (simp add: field_simps)
  then have lo: "pow2 (floor_log2 x) \<le> x" using b by (simp add: e pow2_def)
  have "(2::rat) ^ nat (?k - 1) \<le> of_int (?m - 1)"
    using b by (metis of_int_le_iff of_int_numeral of_int_power)
  moreover have "of_int (?m - 1) < ?y" by linarith
  ultimately have "(2::rat) ^ nat (?k - 1) < ?y" by linarith
  then have "x < 1 / 2 ^ nat (?k - 1)" using assms by (simp add: field_simps)
  moreover have "pow2 (- ?k + 1) = 1 / 2 ^ nat (?k - 1)"
    using b by (cases "?k = 1") (simp_all add: pow2_def)
  ultimately have hi: "x < pow2 (floor_log2 x + 1)" by (simp add: e)
  from lo hi show ?thesis ..
qed

lemma round_half_even_nearest:
  "\<bar>of_int (round_half_even y) - y\<bar> \<le> 1 / 2"
proof -
  have "of_int \<lfloor>y\<rfloor> \<le> y" "y < of_int \<lfloor>y\<rfloor> + 1" by linarith+
  then show ?thesis by (auto simp: round_half_even_def Let_def)
qed

lemma round_double_nearest:
  assumes "x \<noteq> 0"
  defines "q \<equiv> max (floor_log2 \<bar>x\<bar> - 52) (- 1074)"
  shows "round_double x = of_int (round_half_even (x / pow2 q)) * pow2 q"
    and "\<bar>round_double x - x\<bar> \<le> pow2 q / 2"
    and "\<bar>round_half_even (x / pow2 q)\<bar> \<le> 2 ^ 53"
proof -
  show r: "round_double x = of_int (round_half_even (x / pow2 q)) * pow2 q"
    using assms(1) by (simp add: round_double_def q_def Let_def)
  let ?y = "x / pow2 q"
  have p: "0 < pow2 q" by (rule pow2_pos)
  have "round_double x - x = (of_int (round_half_even ?y) - ?y) * pow2 q"
    using p by (simp add: r field_simps)
  then have "\<bar>round_double x - x\<bar> = \<bar>of_int (round_half_even ?y) - ?y\<bar> * pow2 q"
    using p by (simp add: abs_mult)
  also have "\<dots> \<le> (1 / 2) * pow2 q"
    using round_half_even_nearest [of ?y] p by (intro mult_right_mono) simp_all
  finally show "\<bar>round_double x - x\<bar> \<le> pow2 q / 2" by simp
  have "\<bar>x\<bar> < pow2 (floor_log2 \<bar>x\<bar> + 1)"
    using floor_log2_bounds [of "\<bar>x\<bar>"] assms(1) by simp
  also have "\<dots> \<le> pow2 (q + 53)"
    by (rule pow2_mono) (simp add: q_def)
  finally have "\<bar>x\<bar> < pow2 q * pow2 53" by (simp only: pow2_add)
  moreover have "pow2 53 = 2 ^ 53" by (simp add: pow2_def)
  ultimately have "\<bar>x\<bar> < pow2 q * 2 ^ 53" by simp
  then have x: "\<bar>x\<bar> < 9007199254740992 * pow2 q" by (simp add: mult.commute)
  define z where "z = x / pow2 q"
  have "x = z * pow2 q" using p by (simp add: z_def)
  then have "\<bar>x\<bar> = \<bar>z\<bar> * pow2 q" using p by (simp add: abs_mult)
  with x have "\<bar>z\<bar> * pow2 q < 9007199254740992 * pow2 q" by simp
  then have "\<bar>z\<bar> < 9007199254740992" using p by (simp only: mult_less_cancel_right_pos)
  then have z: "- 9007199254740992 < z" "z < 9007199254740992" by linarith+
  have f: "of_int \<lfloor>z\<rfloor> \<le> z" "z < of_int \<lfloor>z\<rfloor> + 1" by linarith+
  have "(of_int (- 9007199254740992) :: rat) \<le> z" using z(1) by simp
  then have lo: "- 9007199254740992 \<le> \<lfloor>z\<rfloor>" by (simp only: le_floor_iff)
  have "z < of_int 9007199254740992" using z(2) by simp
  then have hi: "\<lfloor>z\<rfloor> < 9007199254740992" by (simp only: floor_less_iff)
  define n where "n = \<lfloor>z\<rfloor>"
  have "round_half_even z = n \<or> round_half_even z = n + 1"
    by (simp add: round_half_even_def Let_def n_def)
  moreover from lo hi have "- 9007199254740992 \<le> n" "n < 9007199254740992"
    by (simp_all only: n_def)
  ultimately
  have "- 9007199254740992 \<le> round_half_even z \<and> round_half_even z \<le> 9007199254740992"
    by auto
  then show "\<bar>round_half_even ?y\<bar> \<le> 2 ^ 53"
    unfolding z_def by (simp add: abs_le_iff)
qed

section \<open>Properties of the step encoder\<close>

lemma create_single_step_snd: "snd (create_single_step i s) = i + 1"
  by (simp add: create_single_step_def Let_def)

lemma create_single_step_index: "message_index (fst (create_single_step i s)) = i"
  by (simp add: create_single_step_def Let_def)

lemma inner_loop_acc:
  "inner_loop ss i msgs = (msgs @ fst (inner_loop ss i []), snd (inner_loop ss i []))"
proof (induction ss arbitrary: i msgs)
  case Nil
  show ?case by simp
next
  case (Cons s ss)
  obtain m j where mj: "create_single_step i s = (m, j)" by (cases "create_single_step i s")
  have a: "inner_loop ss j (msgs @ [m]) = ((msgs @ [m]) @ fst (inner_loop ss j []), snd (inner_loop ss j []))"
    by (rule Cons.IH)
  have b: "inner_loop ss j [m] = ([m] @ fst (inner_loop ss j []), snd (inner_loop ss j []))"
    using Cons.IH [of j "[m]"] by simp
  show ?case using mj a b by simp
qed

lemma inner_loop_snd: "snd (inner_loop ss i msgs) = i + int (length ss)"
proof (induction ss arbitrary: i msgs)
  case Nil
  show ?case by simp
next
  case (Cons s ss)
  obtain m j where mj: "create_single_step i s = (m, j)" by (cases "create_single_step i s")
  then have "j = i + 1" using create_single_step_snd [of i s] by simp
  then show ?case using mj Cons.IH [of j "msgs @ [m]"] by simp
qed

lemma inner_loop_length: "length (fst (inner_loop ss i [])) = length ss"
proof (induction ss arbitrary: i)
  case Nil
  show ?case by simp
next
  case (Cons s ss)
  obtain m j where mj: "create_single_step i s = (m, j)" by (cases "create_single_step i s")
  have "inner_loop (s # ss) i [] = inner_loop ss j [m]" using mj by simp
  also have "\<dots> = ([m] @ fst (inner_loop ss j []), snd (inner_loop ss j []))"
    by (rule inner_loop_acc)
  finally show ?case using Cons.IH [of j] by simp
qed

lemma inner_loop_nth:
  "k < length ss \<Longrightarrow>
   fst (inner_loop ss i []) ! k = fst (create_single_step (i + int k) (ss ! k))"
proof (induction ss arbitrary: i k)
  case Nil
  then show ?case by simp
next
  case (Cons s ss)
  obtain m j where mj: "create_single_step i s = (m, j)" by (cases "create_single_step i s")
  then have j: "j = i + 1" using create_single_step_snd [of i s] by simp
  have "inner_loop (s # ss) i [] = inner_loop ss j [m]" using mj by simp
  also have "\<dots> = ([m] @ fst (inner_loop ss j []), snd (inner_loop ss j []))"
    by (rule inner_loop_acc)
  finally have e: "fst (inner_loop (s # ss) i []) = m # fst (inner_loop ss j [])" by simp
  show ?case
  proof (cases k)
    case 0
    then show ?thesis using e mj by simp
  next
    case (Suc k')
    then have "k' < length ss" using Cons.prems by simp
    then have "fst (inner_loop ss j []) ! k' = fst (create_single_step (j + int k') (ss ! k'))"
      by (rule Cons.IH)
    then show ?thesis using e Suc j by (simp add: algebra_simps)
  qed
qed

lemma create_repeat_steps_fst:
  "fst (create_repeat_steps i r) =
     fst (inner_loop (repeat_steps r) i []) @
     [\<lparr> message_index = i + int (length (repeat_steps r)),
        workout_step_name = ''Repeat '' @ str_int (repeat_count r) @ ''x'',
        notes_msg = None,
        duration_type = WorkoutStepDuration_REPEAT_UNTIL_STEPS_CMPLT,
        duration_value = None,
        duration_step = Some i,
        target_type_msg = WorkoutStepTarget_OPEN,
        target_value = Some (repeat_count r),
        custom_target_value_low = None,
        custom_target_value_high = None,
        intensity_msg = Intensity_ACTIVE \<rparr>]"
proof -
  obtain ms j where e: "inner_loop (repeat_steps r) i [] = (ms, j)"
    by (cases "inner_loop (repeat_steps r) i []")
  then have "j = i + int (length (repeat_steps r))"
    using inner_loop_snd [of "repeat_steps r" i "[]"] by simp
  then show ?thesis using e by (simp add: create_repeat_steps_def Let_def)
qed

lemma create_repeat_steps_snd:
  "snd (create_repeat_steps i r) = i + int (length (repeat_steps r)) + 1"
proof -
  obtain ms j where e: "inner_loop (repeat_steps r) i [] = (ms, j)"
    by (cases "inner_loop (repeat_steps r) i []")
  then have "j = i + int (length (repeat_steps r))"
    using inner_loop_snd [of "repeat_steps r" i "[]"] by simp
  then show ?thesis using e by (simp add: create_repeat_steps_def Let_def)
qed

lemma create_repeat_steps_length:
  "length (fst (create_repeat_steps i r)) = length (repeat_steps r) + 1"
  by (simp add: create_repeat_steps_fst inner_loop_length)

lemma steps_loop_acc:
  "steps_loop ss i msgs = (msgs @ fst (steps_loop ss i []), snd (steps_loop ss i []))"
proof (induction ss arbitrary: i msgs)
  case Nil
  show ?case by simp
next
  case (Cons s ss)
  show ?case
  proof (cases "step_type s = StepType_REPEAT")
    case True
    obtain ms j where e: "create_repeat_steps i s = (ms, j)"
      by (cases "create_repeat_steps i s")
    have a: "steps_loop ss j (msgs @ ms) =
               ((msgs @ ms) @ fst (steps_loop ss j []), snd (steps_loop ss j []))"
      by (rule Cons.IH)
    have b: "steps_loop ss j ms = (ms @ fst (steps_loop ss j []), snd (steps_loop ss j []))"
      by (rule Cons.IH)
    show ?thesis using True e a b by simp
  next
    case False
    obtain m j where e: "create_single_step i s = (m, j)"
      by (cases "create_single_step i s")
    have a: "steps_loop ss j (msgs @ [m]) =
               ((msgs @ [m]) @ fst (steps_loop ss j []), snd (steps_loop ss j []))"
      by (rule Cons.IH)
    have b: "steps_loop ss j [m] = ([m] @ fst (steps_loop ss j []), snd (steps_loop ss j []))"
      by (rule Cons.IH)
    show ?thesis using False e a b by simp
  qed
qed

lemma steps_loop_Cons_repeat:
  assumes "step_type s = StepType_REPEAT"
  shows "fst (steps_loop (s # ss) i []) =
           fst (create_repeat_steps i s) @
           fst (steps_loop ss (i + int (length (repeat_steps s)) + 1) [])"
    and "snd (steps_loop (s # ss) i []) =
           snd (steps_loop ss (i + int (length (repeat_steps s)) + 1) [])"
proof -
  obtain ms j where e: "create_repeat_steps i s = (ms, j)"
    by (cases "create_repeat_steps i s")
  then have j: "j = i + int (length (repeat_steps s)) + 1"
    using create_repeat_steps_snd [of i s] by simp
  have "steps_loop (s # ss) i [] = steps_loop ss j ms" using assms e by simp
  also have "\<dots> = (ms @ fst (steps_loop ss j []), snd (steps_loop ss j []))"
    by (rule steps_loop_acc)
  finally have f: "steps_loop (s # ss) i [] =
                     (ms @ fst (steps_loop ss j []), snd (steps_loop ss j []))" .
  show "fst (steps_loop (s # ss) i []) =
           fst (create_repeat_steps i s) @
           fst (steps_loop ss (i + int (length (repeat_steps s)) + 1) [])"
    using f e j by simp
  show "snd (steps_loop (s # ss) i []) =
           snd (steps_loop ss (i + int (length (repeat_steps s)) + 1) [])"
    using f j by simp
qed

lemma steps_loop_Cons_single:
  assumes "step_type s \<noteq> StepType_REPEAT"
  shows "fst (steps_loop (s # ss) i []) =
           fst (create_single_step i s) # fst (steps_loop ss (i + 1) [])"
    and "snd (steps_loop (s # ss) i []) = snd (steps_loop ss (i + 1) [])"
proof -
  obtain m j where e: "create_single_step i s = (m, j)"
    by (cases "create_single_step i s")
  then have j: "j = i + 1" using create_single_step_snd [of i s] by simp
  have "steps_loop (s # ss) i [] = steps_loop ss j [m]" using assms e by simp
  also have "\<dots> = ([m] @ fst (steps_loop ss j []), snd (steps_loop ss j []))"
    by (rule steps_loop_acc)
  finally have f: "steps_loop (s # ss) i [] =
                     ([m] @ fst (steps_loop ss j []), snd (steps_loop ss j []))" .
  show "fst (steps_loop (s # ss) i []) =
           fst (create_single_step i s) # fst (steps_loop ss (i + 1) [])"
    using f e j by simp
  show "snd (steps_loop (s # ss) i []) = snd (steps_loop ss (i + 1) [])"
    using f j by simp
qed

declare steps_loop.simps(2) [simp del]

lemma steps_loop_snd:
  "snd (steps_loop ss i []) = i + int (length (fst (steps_loop ss i [])))"
proof (induction ss arbitrary: i)
  case Nil
  show ?case by simp
next
  case (Cons s ss)
  show ?case
  proof (cases "step_type s = StepType_REPEAT")
    case True
    show ?thesis
      using Cons.IH [of "i + int (length (repeat_steps s)) + 1"]
      by (simp add: steps_loop_Cons_repeat [OF True] create_repeat_steps_length)
  next
    case False
    show ?thesis
      using Cons.IH [of "i + 1"] by (simp add: steps_loop_Cons_single [OF False])
  qed
qed

lemma create_repeat_steps_index:
  assumes "k < length (fst (create_repeat_steps i r))"
  shows "message_index (fst (create_repeat_steps i r) ! k) = i + int k"
proof (cases "k < length (repeat_steps r)")
  case True
  then show ?thesis
    by (simp add: create_repeat_steps_fst nth_append inner_loop_length inner_loop_nth
        create_single_step_index)
next
  case False
  then have "k = length (repeat_steps r)"
    using assms by (simp add: create_repeat_steps_length)
  then show ?thesis
    by (simp add: create_repeat_steps_fst nth_append inner_loop_length)
qed

lemma steps_loop_index:
  "k < length (fst (steps_loop ss i [])) \<Longrightarrow>
   message_index (fst (steps_loop ss i []) ! k) = i + int k"
proof (induction ss arbitrary: i k)
  case Nil
  then show ?case by simp
next
  case (Cons s ss)
  show ?case
  proof (cases "step_type s = StepType_REPEAT")
    case True
    let ?a = "fst (create_repeat_steps i s)"
    let ?j = "i + int (length (repeat_steps s)) + 1"
    have e: "fst (steps_loop (s # ss) i []) = ?a @ fst (steps_loop ss ?j [])"
      by (rule steps_loop_Cons_repeat [OF True])
    show ?thesis
    proof (cases "k < length ?a")
      case True
      then show ?thesis by (simp add: e nth_append create_repeat_steps_index)
    next
      case False
      then have "k - length ?a < length (fst (steps_loop ss ?j []))"
        using Cons.prems e by simp
      then have "message_index (fst (steps_loop ss ?j []) ! (k - length ?a))
                   = ?j + int (k - length ?a)"
        by (rule Cons.IH)
      then show ?thesis using False
        by (simp add: e nth_append create_repeat_steps_length)
    qed
  next
    case False
    have e: "fst (steps_loop (s # ss) i []) =
               fst (create_single_step i s) # fst (steps_loop ss (i + 1) [])"
      by (rule steps_loop_Cons_single [OF False])
    show ?thesis
    proof (cases k)
      case 0
      then show ?thesis by (simp add: e create_single_step_index)
    next
      case (Suc k')
      then have "k' < length (fst (steps_loop ss (i + 1) []))"
        using Cons.prems e by simp
      then have "message_index (fst (steps_loop ss (i + 1) []) ! k') = (i + 1) + int k'"
        by (rule Cons.IH)
      then show ?thesis using Suc by (simp add: e)
    qed
  qed
qed

lemma steps_loop_append:
  "fst (steps_loop (xs @ ys) i []) =
     fst (steps_loop xs i []) @ fst (steps_loop ys (snd (steps_loop xs i [])) [])"
proof (induction xs arbitrary: i)
  case Nil
  show ?case by simp
next
  case (Cons s xs)
  show ?case
  proof (cases "step_type s = StepType_REPEAT")
    case True
    show ?thesis
      using Cons.IH [of "i + int (length (repeat_steps s)) + 1"]
            steps_loop_Cons_repeat [OF True, of xs i]
            steps_loop_Cons_repeat [OF True, of "xs @ ys" i]
      by simp
  next
    case False
    show ?thesis
      using Cons.IH [of "i + 1"]
            steps_loop_Cons_single [OF False, of xs i]
            steps_loop_Cons_single [OF False, of "xs @ ys" i]
      by simp
  qed
qed

lemma count_loop_acc:
  "count_loop ss c =
     c + (\<Sum>s\<leftarrow>ss. if step_type s = StepType_REPEAT
                     then 1 + int (length (repeat_steps s)) else 1)"
  by (induction ss arbitrary: c) simp_all

lemma count_loop_length:
  "count_loop ss c = c + int (length (fst (steps_loop ss i [])))"
proof (induction ss arbitrary: c i)
  case Nil
  show ?case by simp
next
  case (Cons s ss)
  show ?case
  proof (cases "step_type s = StepType_REPEAT")
    case True
    show ?thesis
      using Cons.IH [of "c + (1 + int (length (repeat_steps s)))"
                        "i + int (length (repeat_steps s)) + 1"] True
      by (simp add: steps_loop_Cons_repeat [OF True] create_repeat_steps_length)
  next
    case False
    show ?thesis
      using Cons.IH [of "c + 1" "i + 1"] False
      by (simp add: steps_loop_Cons_single [OF False])
  qed
qed

lemma create_workout_steps_index:
  "map message_index (create_workout_steps w) = map int [0..<length (create_workout_steps w)]"
  unfolding create_workout_steps_def
  by (rule nth_equalityI) (simp_all add: steps_loop_index)

lemma marker_of_block:
  assumes "step_type r = StepType_REPEAT"
  shows "fst (steps_loop (pre @ r # post) 0 []) =
           fst (steps_loop pre 0 []) @
           fst (create_repeat_steps (int (length (fst (steps_loop pre 0 [])))) r) @
           fst (steps_loop post
                  (int (length (fst (steps_loop pre 0 []))) + int (length (repeat_steps r)) + 1) [])"
  using steps_loop_snd [of pre 0]
  by (simp add: steps_loop_append steps_loop_Cons_repeat [OF assms])

text \<open>
  Claim C1. The messages of a workout carry the indices 0, 1, 2, ... in the order in which
  they are emitted, one counter serving top-level and inner steps alike. For a repeat block
  that follows the steps \<open>pre\<close>, the inner steps are encoded at the positions after the records
  of \<open>pre\<close>, the marker follows them, the marker's \<open>duration_step\<close> is the index of the first
  inner record and its \<open>target_value\<close> is the block's count. For the steps
  \<open>[A, Repeat{3,[B,C]}, D]\<close> the indices are A=0, B=1, C=2, marker=3 (back to 1, count 3), D=4.
\<close>

theorem encoder_index_sequence:
  "map message_index (create_workout_steps w) = map int [0..<length (create_workout_steps w)]
   \<and> (steps w = pre @ r # post \<and> step_type r = StepType_REPEAT \<longrightarrow>
        (let out = create_workout_steps w;
             loop_start = length (create_workout_steps (w\<lparr>steps := pre\<rparr>));
             marker = out ! (loop_start + length (repeat_steps r))
         in loop_start + length (repeat_steps r) < length out
            \<and> message_index marker = int (loop_start + length (repeat_steps r))
            \<and> duration_type marker = WorkoutStepDuration_REPEAT_UNTIL_STEPS_CMPLT
            \<and> duration_step marker = Some (int loop_start)
            \<and> target_value marker = Some (repeat_count r)
            \<and> (\<forall>j<length (repeat_steps r).
                  out ! (loop_start + j) =
                    fst (create_single_step (int (loop_start + j)) (repeat_steps r ! j))
                  \<and> message_index (out ! (loop_start + j)) = int (loop_start + j))))
   \<and> (steps w = [A, R, D] \<and> step_type A \<noteq> StepType_REPEAT \<and> step_type R = StepType_REPEAT
        \<and> step_type D \<noteq> StepType_REPEAT \<and> repeat_count R = 3 \<and> repeat_steps R = [B, C] \<longrightarrow>
        map message_index (create_workout_steps w) = [0, 1, 2, 3, 4]
        \<and> map duration_step (create_workout_steps w) = [None, None, None, Some 1, None]
        \<and> target_value (create_workout_steps w ! 3) = Some 3
        \<and> create_workout_steps w ! 0 = fst (create_single_step 0 A)
        \<and> create_workout_steps w ! 1 = fst (create_single_step 1 B)
        \<and> create_workout_steps w ! 2 = fst (create_single_step 2 C)
        \<and> create_workout_steps w ! 4 = fst (create_single_step 4 D))"
proof (rule conjI [OF _ conjI])
  show "map message_index (create_workout_steps w) = map int [0..<length (create_workout_steps w)]"
    by (rule create_workout_steps_index)
next
  show "steps w = pre @ r # post \<and> step_type r = StepType_REPEAT \<longrightarrow>
        (let out = create_workout_steps w;
             loop_start = length (create_workout_steps (w\<lparr>steps := pre\<rparr>));
             marker = out ! (loop_start + length (repeat_steps r))
         in loop_start + length (repeat_steps r) < length out
            \<and> message_index marker = int (loop_start + length (repeat_steps r))
            \<and> duration_type marker = WorkoutStepDuration_REPEAT_UNTIL_STEPS_CMPLT
            \<and> duration_step marker = Some (int loop_start)
            \<and> target_value marker = Some (repeat_count r)
            \<and> (\<forall>j<length (repeat_steps r).
                  out ! (loop_start + j) =
                    fst (create_single_step (int (loop_start + j)) (repeat_steps r ! j))
                  \<and> message_index (out ! (loop_start + j)) = int (loop_start + j)))"
  proof (rule impI)
  assume a: "steps w = pre @ r # post \<and> step_type r = StepType_REPEAT"
  then have rep: "step_type r = StepType_REPEAT" by simp
  let ?n = "length (fst (steps_loop pre 0 []))"
  let ?k = "length (repeat_steps r)"
  let ?inner = "fst (inner_loop (repeat_steps r) (int ?n) [])"
  have out: "create_workout_steps w =
               fst (steps_loop pre 0 []) @ fst (create_repeat_steps (int ?n) r) @
               fst (steps_loop post (int ?n + int ?k + 1) [])"
    using a marker_of_block [OF rep, of pre post] by (simp add: create_workout_steps_def)
  have pre: "create_workout_steps (w\<lparr>steps := pre\<rparr>) = fst (steps_loop pre 0 [])"
    by (simp add: create_workout_steps_def)
  have len: "length (fst (create_repeat_steps (int ?n) r)) = ?k + 1"
    by (rule create_repeat_steps_length)
  have mk: "create_workout_steps w ! (?n + ?k) = fst (create_repeat_steps (int ?n) r) ! ?k"
    by (simp add: out nth_append len)
  have mk2: "fst (create_repeat_steps (int ?n) r) ! ?k =
       \<lparr> message_index = int ?n + int ?k,
        workout_step_name = ''Repeat '' @ str_int (repeat_count r) @ ''x'',
        notes_msg = None,
        duration_type = WorkoutStepDuration_REPEAT_UNTIL_STEPS_CMPLT,
        duration_value = None,
        duration_step = Some (int ?n),
        target_type_msg = WorkoutStepTarget_OPEN,
        target_value = Some (repeat_count r),
        custom_target_value_low = None,
        custom_target_value_high = None,
        intensity_msg = Intensity_ACTIVE \<rparr>"
    by (simp add: create_repeat_steps_fst nth_append inner_loop_length)
  have inner: "\<forall>j<?k. create_workout_steps w ! (?n + j) =
                 fst (create_single_step (int (?n + j)) (repeat_steps r ! j))
                 \<and> message_index (create_workout_steps w ! (?n + j)) = int (?n + j)"
  proof (intro allI impI)
    fix j assume j: "j < ?k"
    have "create_workout_steps w ! (?n + j) = fst (create_repeat_steps (int ?n) r) ! j"
      using j by (simp add: out nth_append len)
    also have "\<dots> = ?inner ! j"
      using j by (simp add: create_repeat_steps_fst nth_append inner_loop_length)
    also have "\<dots> = fst (create_single_step (int ?n + int j) (repeat_steps r ! j))"
      using j by (rule inner_loop_nth)
    finally have e: "create_workout_steps w ! (?n + j) =
                   fst (create_single_step (int (?n + j)) (repeat_steps r ! j))" by simp
    show "create_workout_steps w ! (?n + j) =
                 fst (create_single_step (int (?n + j)) (repeat_steps r ! j))
                 \<and> message_index (create_workout_steps w ! (?n + j)) = int (?n + j)"
      using e by (simp add: create_single_step_index)
  qed
  have lt: "?n + ?k < length (create_workout_steps w)"
    by (simp add: out len)
  show "let out = create_workout_steps w;
             loop_start = length (create_workout_steps (w\<lparr>steps := pre\<rparr>));
             marker = out ! (loop_start + length (repeat_steps r))
         in loop_start + length (repeat_steps r) < length out
            \<and> message_index marker = int (loop_start + length (repeat_steps r))
            \<and> duration_type marker = WorkoutStepDuration_REPEAT_UNTIL_STEPS_CMPLT
            \<and> duration_step marker = Some (int loop_start)
            \<and> target_value marker = Some (repeat_count r)
            \<and> (\<forall>j<length (repeat_steps r).
                  out ! (loop_start + j) =
                    fst (create_single_step (int (loop_start + j)) (repeat_steps r ! j))
                  \<and> message_index (out ! (loop_start + j)) = int (loop_start + j))"
    unfolding Let_def pre using lt inner by (simp add: mk mk2 create_single_step_index)
  qed
next
  show "steps w = [A, R, D] \<and> step_type A \<noteq> StepType_REPEAT \<and> step_type R = StepType_REPEAT
        \<and> step_type D \<noteq> StepType_REPEAT \<and> repeat_count R = 3 \<and> repeat_steps R = [B, C] \<longrightarrow>
        map message_index (create_workout_steps w) = [0, 1, 2, 3, 4]
        \<and> map duration_step (create_workout_steps w) = [None, None, None, Some 1, None]
        \<and> target_value (create_workout_steps w ! 3) = Some 3
        \<and> create_workout_steps w ! 0 = fst (create_single_step 0 A)
        \<and> create_workout_steps w ! 1 = fst (create_single_step 1 B)
        \<and> create_workout_steps w ! 2 = fst (create_single_step 2 C)
        \<and> create_workout_steps w ! 4 = fst (create_single_step 4 D)"
  proof (rule impI)
  assume a: "steps w = [A, R, D] \<and> step_type A \<noteq> StepType_REPEAT \<and> step_type R = StepType_REPEAT
        \<and> step_type D \<noteq> StepType_REPEAT \<and> repeat_count R = 3 \<and> repeat_steps R = [B, C]"
  have out: "create_workout_steps w =
          [fst (create_single_step 0 A), fst (create_single_step 1 B),
           fst (create_single_step 2 C),
           \<lparr> message_index = 3,
        workout_step_name = ''Repeat '' @ str_int 3 @ ''x'',
        notes_msg = None,
        duration_type = WorkoutStepDuration_REPEAT_UNTIL_STEPS_CMPLT,
        duration_value = None,
        duration_step = Some 1,
        target_type_msg = WorkoutStepTarget_OPEN,
        target_value = Some 3,
        custom_target_value_low = None,
        custom_target_value_high = None,
        intensity_msg = Intensity_ACTIVE \<rparr>,
           fst (create_single_step 4 D)]"
    using a
    by (simp add: create_workout_steps_def steps_loop_Cons_single steps_loop_Cons_repeat
        create_repeat_steps_fst create_single_step_snd case_prod_beta)
  show "map message_index (create_workout_steps w) = [0, 1, 2, 3, 4]
        \<and> map duration_step (create_workout_steps w) = [None, None, None, Some 1, None]
        \<and> target_value (create_workout_steps w ! 3) = Some 3
        \<and> create_workout_steps w ! 0 = fst (create_single_step 0 A)
        \<and> create_workout_steps w ! 1 = fst (create_single_step 1 B)
        \<and> create_workout_steps w ! 2 = fst (create_single_step 2 C)
        \<and> create_workout_steps w ! 4 = fst (create_single_step 4 D)"
    unfolding out by (simp add: create_single_step_def Let_def)
  qed
qed

text \<open>The theorem of C1 at a concrete workout of three steps, the second a block of two.\<close>

theorem encoder_index_sequence_witness:
  "(let A = WorkoutStep StepType_STEADY 60 TargetType_POWER 100 100 None 0 0 False None None
              ''100% FTP'' '''' None 1 [];
        R = WorkoutStep StepType_REPEAT 0 TargetType_POWER 0 0 None 0 0 False None None
              ''3x 100% FTP'' '''' None 3 [A, A];
        w = \<lparr> name_w = ''Custom Workout'', steps = [A, R, A], sport_w = Sport_CYCLING \<rparr>
    in steps w = [A] @ R # [A] \<and> step_type R = StepType_REPEAT
       \<and> step_type A \<noteq> StepType_REPEAT \<and> repeat_count R = 3 \<and> repeat_steps R = [A, A]
       \<and> map message_index (create_workout_steps w) = [0, 1, 2, 3, 4]
       \<and> map duration_step (create_workout_steps w) = [None, None, None, Some 1, None]
       \<and> message_index (create_workout_steps w ! 3) = 3
       \<and> duration_step (create_workout_steps w ! 3) = Some 1
       \<and> target_value (create_workout_steps w ! 3) = Some 3)"
proof -
  let ?A = "WorkoutStep StepType_STEADY 60 TargetType_POWER 100 100 None 0 0 False None None
              ''100% FTP'' '''' None 1 []"
  let ?R = "WorkoutStep StepType_REPEAT 0 TargetType_POWER 0 0 None 0 0 False None None
              ''3x 100% FTP'' '''' None 3 [?A, ?A]"
  let ?w = "\<lparr> name_w = ''Custom Workout'', steps = [?A, ?R, ?A], sport_w = Sport_CYCLING \<rparr>"
  note t = encoder_index_sequence [where w = ?w and pre = "[?A]" and r = ?R and post = "[?A]"
        and A = ?A and R = ?R and D = ?A and B = ?A and C = ?A]
  have h1: "steps ?w = [?A] @ ?R # [?A] \<and> step_type ?R = StepType_REPEAT" by simp
  have h2: "steps ?w = [?A, ?R, ?A] \<and> step_type ?A \<noteq> StepType_REPEAT
        \<and> step_type ?R = StepType_REPEAT \<and> step_type ?A \<noteq> StepType_REPEAT
        \<and> repeat_count ?R = 3 \<and> repeat_steps ?R = [?A, ?A]" by simp
  have n: "length (create_workout_steps (?w\<lparr>steps := [?A]\<rparr>)) = 1"
    by (simp add: create_workout_steps_def steps_loop_Cons_single)
  have r1: "message_index (create_workout_steps ?w ! 3) = 3
        \<and> duration_step (create_workout_steps ?w ! 3) = Some 1
        \<and> target_value (create_workout_steps ?w ! 3) = Some 3"
    using t [THEN conjunct2, THEN conjunct1, THEN mp, OF h1] n
    by (simp add: Let_def numeral_3_eq_3)
  note r2 = t [THEN conjunct2, THEN conjunct2, THEN mp, OF h2]
  show ?thesis unfolding Let_def using h1 h2 r1 r2 by simp
qed

text \<open>
  Claim C5. The header's \<open>num_valid_steps\<close> is the sum over the top-level steps of 1 for a
  step that is not a repeat and of 1 plus the number of inner steps for a repeat block,
  whatever the block's count; it is the number of messages emitted. For
  \<open>[A, Repeat{3,[B,C]}, D]\<close> it is 5.
\<close>

theorem header_step_count:
  "count_valid_steps w =
     (\<Sum>s\<leftarrow>steps w. if step_type s = StepType_REPEAT
                        then 1 + int (length (repeat_steps s)) else 1)
   \<and> num_valid_steps (create_workout_message w) = count_valid_steps w
   \<and> count_valid_steps w = int (length (create_workout_steps w))
   \<and> (steps w = [A, R, D] \<and> step_type A \<noteq> StepType_REPEAT \<and> step_type R = StepType_REPEAT
        \<and> step_type D \<noteq> StepType_REPEAT \<and> repeat_steps R = [B, C] \<longrightarrow>
        count_valid_steps w = 5)"
proof -
  have 1: "count_valid_steps w =
     (\<Sum>s\<leftarrow>steps w. if step_type s = StepType_REPEAT
                        then 1 + int (length (repeat_steps s)) else 1)"
    by (simp add: count_valid_steps_def count_loop_acc)
  have 2: "num_valid_steps (create_workout_message w) = count_valid_steps w"
    by (simp add: create_workout_message_def)
  have 3: "count_valid_steps w = int (length (create_workout_steps w))"
    using count_loop_length [of "steps w" 0 0]
    by (simp add: count_valid_steps_def create_workout_steps_def)
  have 4: "steps w = [A, R, D] \<and> step_type A \<noteq> StepType_REPEAT \<and> step_type R = StepType_REPEAT
        \<and> step_type D \<noteq> StepType_REPEAT \<and> repeat_steps R = [B, C] \<longrightarrow>
        count_valid_steps w = 5"
    by (simp add: count_valid_steps_def)
  show ?thesis using 1 2 3 4 by blast
qed

text \<open>The theorem of C5 at the same concrete workout.\<close>

theorem header_step_count_witness:
  "(let A = WorkoutStep StepType_STEADY 60 TargetType_POWER 100 100 None 0 0 False None None
              ''100% FTP'' '''' None 1 [];
        R = WorkoutStep StepType_REPEAT 0 TargetType_POWER 0 0 None 0 0 False None None
              ''3x 100% FTP'' '''' None 3 [A, A];
        w = \<lparr> name_w = ''Custom Workout'', steps = [A, R, A], sport_w = Sport_CYCLING \<rparr>
    in step_type A \<noteq> StepType_REPEAT \<and> step_type R = StepType_REPEAT
       \<and> repeat_steps R = [A, A] \<and> repeat_count R = 3
       \<and> count_valid_steps w = 5
       \<and> num_valid_steps (create_workout_message w) = 5
       \<and> length (create_workout_steps w) = 5)"
proof -
  let ?A = "WorkoutStep StepType_STEADY 60 TargetType_POWER 100 100 None 0 0 False None None
              ''100% FTP'' '''' None 1 []"
  let ?R = "WorkoutStep StepType_REPEAT 0 TargetType_POWER 0 0 None 0 0 False None None
              ''3x 100% FTP'' '''' None 3 [?A, ?A]"
  let ?w = "\<lparr> name_w = ''Custom Workout'', steps = [?A, ?R, ?A], sport_w = Sport_CYCLING \<rparr>"
  show ?thesis
    using header_step_count [where w = ?w and A = ?A and R = ?R and D = ?A and B = ?A and C = ?A]
    by (simp add: Let_def)
qed

lemma py_int_bounds:
  "(0 \<le> x \<longrightarrow> of_int (py_int x) \<le> x \<and> x < of_int (py_int x) + 1)
   \<and> (x < 0 \<longrightarrow> of_int (py_int x) - 1 < x \<and> x \<le> of_int (py_int x))"
  unfolding py_int_def by (auto; linarith)

lemma py_int_906: "py_int (906 / 10) = 90"
  by (simp add: py_int_def floor_eq_iff)

lemma round_half_away_906: "round_half_away_from_zero (906 / 10) = 91"
  by (simp add: round_half_away_from_zero_def floor_eq_iff)

lemma power_step_bounds:
  assumes "target_type s = TargetType_POWER" and "step_type s \<noteq> StepType_OPEN"
  shows "target_type_msg (fst (create_single_step i s)) = WorkoutStepTarget_POWER"
    and "custom_target_value_low (fst (create_single_step i s)) = Some (py_int (power_low_pct s))"
    and "custom_target_value_high (fst (create_single_step i s)) = Some (py_int (power_high_pct s))"
  using assms by (simp_all add: create_single_step_def Let_def FTP_SCALE_def)

text \<open>
  Claim C3, as amended. For a step with a power target the encoder stores the low and the
  high bound as the percent value truncated toward zero (Python's \<open>int\<close>), not rounded:
  a bound of 90.6 is stored as 90.
\<close>

theorem power_bounds_truncated:
  assumes "target_type s = TargetType_POWER" and "step_type s \<noteq> StepType_OPEN"
  shows "target_type_msg (fst (create_single_step i s)) = WorkoutStepTarget_POWER
         \<and> custom_target_value_low (fst (create_single_step i s)) = Some (py_int (power_low_pct s))
         \<and> custom_target_value_high (fst (create_single_step i s)) = Some (py_int (power_high_pct s))
         \<and> (\<forall>x. (0 \<le> x \<longrightarrow> of_int (py_int x) \<le> x \<and> x < of_int (py_int x) + 1)
                \<and> (x < 0 \<longrightarrow> of_int (py_int x) - 1 < x \<and> x \<le> of_int (py_int x)))
         \<and> (power_low_pct s = 906 / 10 \<longrightarrow>
              custom_target_value_low (fst (create_single_step i s)) = Some 90)"
proof -
  note a = power_step_bounds [OF assms, of i]
  have c: "power_low_pct s = 906 / 10 \<longrightarrow>
              custom_target_value_low (fst (create_single_step i s)) = Some 90"
  proof
    assume e: "power_low_pct s = 906 / 10"
    have "py_int (power_low_pct s) = 90" unfolding e by (rule py_int_906)
    with a(2) show "custom_target_value_low (fst (create_single_step i s)) = Some 90"
      by (simp only:)
  qed
  show ?thesis using a c py_int_bounds by blast
qed

text \<open>The theorem of C3 at a steady step of 90.6 percent.\<close>

theorem power_bounds_truncated_witness:
  "(let s = WorkoutStep StepType_STEADY 300 TargetType_POWER (906 / 10) (906 / 10) None 0 0 False
              None None ''91% FTP'' '''' None 1 []
    in target_type s = TargetType_POWER \<and> step_type s \<noteq> StepType_OPEN
       \<and> power_low_pct s = 906 / 10
       \<and> target_type_msg (fst (create_single_step 0 s)) = WorkoutStepTarget_POWER
       \<and> custom_target_value_low (fst (create_single_step 0 s)) = Some 90)"
proof -
  let ?s = "WorkoutStep StepType_STEADY 300 TargetType_POWER (906 / 10) (906 / 10) None 0 0 False
              None None ''91% FTP'' '''' None 1 []"
  have h1: "target_type ?s = TargetType_POWER" by simp
  have h2: "step_type ?s \<noteq> StepType_OPEN" by simp
  have h3: "power_low_pct ?s = 906 / 10" by simp
  note t = power_bounds_truncated [OF h1 h2, of 0]
  from t h3 have low: "custom_target_value_low (fst (create_single_step 0 ?s)) = Some 90"
    by blast
  from t have ty: "target_type_msg (fst (create_single_step 0 ?s)) = WorkoutStepTarget_POWER"
    by blast
  show ?thesis unfolding Let_def using h1 h2 h3 low ty by blast
qed

text \<open>
  Claim C3 as stated fails: at 90.6 percent the encoder stores 90, and rounding half away
  from zero gives 91.
\<close>

theorem power_rounding_counterexample:
  "custom_target_value_low (fst (create_single_step 0
      (WorkoutStep StepType_STEADY 300 TargetType_POWER (906 / 10) (906 / 10) None 0 0 False
         None None ''91% FTP'' '''' None 1 []))) = Some 90
   \<and> round_half_away_from_zero (906 / 10) = 91
   \<and> custom_target_value_low (fst (create_single_step 0
      (WorkoutStep StepType_STEADY 300 TargetType_POWER (906 / 10) (906 / 10) None 0 0 False
         None None ''91% FTP'' '''' None 1 []))) \<noteq> Some (round_half_away_from_zero (906 / 10))"
proof -
  let ?s = "WorkoutStep StepType_STEADY 300 TargetType_POWER (906 / 10) (906 / 10) None 0 0 False
         None None ''91% FTP'' '''' None 1 []"
  have h1: "target_type ?s = TargetType_POWER" by simp
  have h2: "step_type ?s \<noteq> StepType_OPEN" by simp
  have h3: "power_low_pct ?s = 906 / 10" by simp
  have "py_int (power_low_pct ?s) = 90" unfolding h3 by (rule py_int_906)
  with power_step_bounds(2) [OF h1 h2, of 0]
  have low: "custom_target_value_low (fst (create_single_step 0 ?s)) = Some 90"
    by (simp only:)
  show ?thesis unfolding low round_half_away_906 by simp
qed

text \<open>
  Claim C4. For a step with a heart-rate target the encoder stores the bounds of an absolute
  target as beats per minute plus 100, and the bounds of a percentage target as the plain
  integer percent: 140 bpm is stored as 240, 80 percent as 80.
\<close>

theorem heart_rate_bounds_encoding:
  assumes "target_type s = TargetType_HEART_RATE" and "step_type s \<noteq> StepType_OPEN"
  shows "target_type_msg (fst (create_single_step i s)) = WorkoutStepTarget_HEART_RATE
         \<and> custom_target_value_low (fst (create_single_step i s)) =
             Some (if hr_is_percentage s then py_int (hr_low s) else py_int (hr_low s) + 100)
         \<and> custom_target_value_high (fst (create_single_step i s)) =
             Some (if hr_is_percentage s then py_int (hr_high s) else py_int (hr_high s) + 100)
         \<and> (\<not> hr_is_percentage s \<and> hr_low s = 140 \<and> hr_high s = 140 \<longrightarrow>
              custom_target_value_low (fst (create_single_step i s)) = Some 240
              \<and> custom_target_value_high (fst (create_single_step i s)) = Some 240)
         \<and> (hr_is_percentage s \<and> hr_low s = 80 \<and> hr_high s = 80 \<longrightarrow>
              custom_target_value_low (fst (create_single_step i s)) = Some 80
              \<and> custom_target_value_high (fst (create_single_step i s)) = Some 80)"
  using assms
  by (simp add: create_single_step_def Let_def HR_ABSOLUTE_OFFSET_def py_int_def)

text \<open>The theorem of C4 at a step of 140 bpm and at a step of 80 percent.\<close>

theorem heart_rate_bounds_encoding_witness:
  "(let s = WorkoutStep StepType_STEADY 600 TargetType_HEART_RATE 0 0 (Some TargetType_HEART_RATE)
              140 140 False None None ''140 bpm'' '''' None 1 [];
        t = WorkoutStep StepType_STEADY 600 TargetType_HEART_RATE 0 0 (Some TargetType_HEART_RATE)
              80 80 True None None ''80% HR'' '''' None 1 []
    in target_type s = TargetType_HEART_RATE \<and> step_type s \<noteq> StepType_OPEN
       \<and> target_type t = TargetType_HEART_RATE \<and> step_type t \<noteq> StepType_OPEN
       \<and> custom_target_value_low (fst (create_single_step 0 s)) = Some 240
       \<and> custom_target_value_high (fst (create_single_step 0 s)) = Some 240
       \<and> custom_target_value_low (fst (create_single_step 0 t)) = Some 80
       \<and> custom_target_value_high (fst (create_single_step 0 t)) = Some 80)"
  using heart_rate_bounds_encoding [where i = 0 and s = "WorkoutStep StepType_STEADY 600
      TargetType_HEART_RATE 0 0 (Some TargetType_HEART_RATE) 140 140 False None None
      ''140 bpm'' '''' None 1 []"]
    heart_rate_bounds_encoding [where i = 0 and s = "WorkoutStep StepType_STEADY 600
      TargetType_HEART_RATE 0 0 (Some TargetType_HEART_RATE) 80 80 True None None
      ''80% HR'' '''' None 1 []"]
  by (simp add: Let_def py_int_def)

text \<open>
  Claim C6, as amended. The intensity of a step is resolved as the specification says
  (override, then open step, then heart-rate target, then warmup and cooldown hints, then the
  average power: below 56 recovery, from 106 interval, otherwise active) for every step
  whose type is not \<open>RECOVERY\<close>. For a step of type \<open>RECOVERY\<close> the override, the open and
  heart-rate rules and the warmup and cooldown hints come first in the same way, and a step
  that reaches the power classification is a recovery step whatever its average power. The
  average power is the one the encoder computes: the sum of the two bounds rounded to a
  double, halved.
\<close>

theorem intensity_resolution:
  "(step_type s \<noteq> StepType_RECOVERY \<longrightarrow> get_intensity s = spec_intensity s)
   \<and> (intensity s = Some i \<longrightarrow> get_intensity s = i)
   \<and> (intensity s = None \<and> step_type s = StepType_OPEN \<longrightarrow> get_intensity s = Intensity_ACTIVE)
   \<and> (intensity s = None \<and> step_type s \<noteq> StepType_OPEN
        \<and> target_type s = TargetType_HEART_RATE \<longrightarrow> get_intensity s = Intensity_ACTIVE)
   \<and> (intensity s = None \<and> step_type s \<noteq> StepType_OPEN
        \<and> target_type s \<noteq> TargetType_HEART_RATE
        \<longrightarrow> get_intensity s =
              (if step_type s = StepType_WARMUP \<or> str_in ''warmup'' (lower (name s))
               then Intensity_WARMUP
               else if step_type s = StepType_COOLDOWN \<or> str_in ''cooldown'' (lower (name s))
               then Intensity_COOLDOWN
               else if step_type s = StepType_RECOVERY then Intensity_RECOVERY
               else if avg_power s < 56 then Intensity_RECOVERY
               else if 106 \<le> avg_power s then Intensity_INTERVAL
               else Intensity_ACTIVE))
   \<and> avg_power s = float_div (float_add (power_low_pct s) (power_high_pct s)) 2"
  by (auto simp: get_intensity_def spec_intensity_def avg_power_def Let_def
      split: option.splits)

text \<open>
  The theorem of C6 at the two boundaries (56 is active, 106 is interval), at two bounds
  whose sum rounds up to 112 (the last double below 56, and 56: the average is 56 and the
  step active), at a step of type \<open>RECOVERY\<close>, and at a step of type \<open>RECOVERY\<close> with a
  warmup name.
\<close>

theorem intensity_resolution_witness:
  "get_intensity (WorkoutStep StepType_STEADY 300 TargetType_POWER 56 56 None 0 0 False
      None None ''56% FTP'' '''' None 1 []) = Intensity_ACTIVE
   \<and> get_intensity (WorkoutStep StepType_STEADY 300 TargetType_POWER 106 106 None 0 0 False
      None None ''106% FTP'' '''' None 1 []) = Intensity_INTERVAL
   \<and> avg_power (WorkoutStep StepType_RAMP 300 TargetType_POWER (56 - 1 / 2 ^ 47) 56 None 0 0
      False None None ''Ramp 56%-56%'' '''' None 1 []) = 56
   \<and> get_intensity (WorkoutStep StepType_RAMP 300 TargetType_POWER (56 - 1 / 2 ^ 47) 56 None 0 0
      False None None ''Ramp 56%-56%'' '''' None 1 []) = Intensity_ACTIVE
   \<and> get_intensity (WorkoutStep StepType_RECOVERY 60 TargetType_POWER 110 110 None 0 0 False
      None None ''Hard'' '''' None 1 []) = Intensity_RECOVERY
   \<and> get_intensity (WorkoutStep StepType_RECOVERY 60 TargetType_POWER 50 50 None 0 0 False
      None None ''Warmup spin'' '''' None 1 []) = Intensity_WARMUP"
proof -
  let ?a = "WorkoutStep StepType_STEADY 300 TargetType_POWER 56 56 None 0 0 False
      None None ''56% FTP'' '''' None 1 []"
  let ?b = "WorkoutStep StepType_STEADY 300 TargetType_POWER 106 106 None 0 0 False
      None None ''106% FTP'' '''' None 1 []"
  let ?e = "WorkoutStep StepType_RAMP 300 TargetType_POWER (56 - 1 / 2 ^ 47) 56 None 0 0
      False None None ''Ramp 56%-56%'' '''' None 1 []"
  let ?r = "WorkoutStep StepType_RECOVERY 60 TargetType_POWER 110 110 None 0 0 False
      None None ''Hard'' '''' None 1 []"
  let ?w = "WorkoutStep StepType_RECOVERY 60 TargetType_POWER 50 50 None 0 0 False
      None None ''Warmup spin'' '''' None 1 []"
  have sa: "spec_intensity ?a = Intensity_ACTIVE" by code_simp
  have sb: "spec_intensity ?b = Intensity_INTERVAL" by code_simp
  have se: "spec_intensity ?e = Intensity_ACTIVE" by code_simp
  have ve: "avg_power ?e = 56" by code_simp
  have a: "get_intensity ?a = Intensity_ACTIVE"
    using intensity_resolution [where s = ?a, THEN conjunct1] sa by simp
  have b: "get_intensity ?b = Intensity_INTERVAL"
    using intensity_resolution [where s = ?b, THEN conjunct1] sb by simp
  have e: "get_intensity ?e = Intensity_ACTIVE"
    using intensity_resolution [where s = ?e, THEN conjunct1] se by simp
  have hr: "\<not> str_in ''warmup'' (lower (name ?r))" "\<not> str_in ''cooldown'' (lower (name ?r))"
    by code_simp+
  have hw: "str_in ''warmup'' (lower (name ?w))" by code_simp
  note c5 = conjunct2 [THEN conjunct2, THEN conjunct2, THEN conjunct2, THEN conjunct1]
  have r: "get_intensity ?r = Intensity_RECOVERY"
    using intensity_resolution [where s = ?r, THEN c5] hr by simp
  have w: "get_intensity ?w = Intensity_WARMUP"
    using intensity_resolution [where s = ?w, THEN c5] hw by simp
  from a b ve e r w show ?thesis by blast
qed

text \<open>
  Claim C6 as stated fails: a step of type \<open>RECOVERY\<close> at 110 percent is classified as
  recovery by the encoder, and as interval by the rule of the specification.
\<close>

theorem intensity_recovery_type_counterexample:
  "get_intensity (WorkoutStep StepType_RECOVERY 60 TargetType_POWER 110 110 None 0 0 False
       None None ''Hard'' '''' None 1 []) = Intensity_RECOVERY
   \<and> spec_intensity (WorkoutStep StepType_RECOVERY 60 TargetType_POWER 110 110 None 0 0 False
       None None ''Hard'' '''' None 1 []) = Intensity_INTERVAL"
  by code_simp

section \<open>Properties of the matcher\<close>

subsection \<open>How the matcher finds its first way\<close>

lemma first_way_Nil: "ms n0 r s g = [] \<Longrightarrow> first_way n0 r s g = None"
  by (simp add: first_way_def)

lemma first_way_SomeD: "first_way n0 r s g = Some w \<Longrightarrow> \<exists>ws. ms n0 r s g = w # ws"
  by (cases "ms n0 r s g") (simp_all add: first_way_def)

lemma first_way_NoneD: "first_way n0 r s g = None \<Longrightarrow> ms n0 r s g = []"
  by (cases "ms n0 r s g") (simp_all add: first_way_def)

lemma first_way_Eps: "first_way n0 Eps s g = Some (s, g)"
  by (simp add: first_way_def)

lemma first_way_Cls: "p c \<Longrightarrow> first_way n0 (Cls p) (c # s) g = Some (s, g)"
  by (simp add: first_way_def)

lemma ms_Cls_Nil: "s = [] \<or> \<not> p (hd s) \<Longrightarrow> ms n0 (Cls p) s g = []"
  by (cases s) auto

lemma star_ms_run:
  "\<forall>c\<in>set a. p c \<Longrightarrow> b = [] \<or> \<not> p (hd b) \<Longrightarrow> \<exists>ws. star_ms p (a @ b) = b # ws"
proof (induction a)
  case Nil
  then show ?case by (cases b) auto
next
  case (Cons x a)
  then obtain ws where "star_ms p (a @ b) = b # ws" by auto
  with Cons.prems show ?case by simp
qed

lemma first_way_Star:
  "\<forall>c\<in>set a. p c \<Longrightarrow> b = [] \<or> \<not> p (hd b) \<Longrightarrow> first_way n0 (Star p) (a @ b) g = Some (b, g)"
  using star_ms_run [of a p b] by (auto simp: first_way_def)

lemma first_way_Plus:
  assumes "a \<noteq> []" and "\<forall>c\<in>set a. p c" and "b = [] \<or> \<not> p (hd b)"
  shows "first_way n0 (Plus p) (a @ b) g = Some (b, g)"
proof -
  obtain x a' where a: "a = x # a'" using assms(1) by (cases a) auto
  with assms(2) have "\<forall>c\<in>set a'. p c" and x: "p x" by auto
  from star_ms_run [OF this(1) assms(3)] obtain ws where "star_ms p (a' @ b) = b # ws" ..
  with a x show ?thesis by (simp add: first_way_def)
qed

lemma ms_Plus_Nil: "s = [] \<or> \<not> p (hd s) \<Longrightarrow> ms n0 (Plus p) s g = []"
  by (cases s) auto

lemma first_way_Seq:
  assumes "first_way n0 r1 s g = Some (s1, g1)" and "first_way n0 r2 s1 g1 = Some w"
  shows "first_way n0 (Seq r1 r2) s g = Some w"
proof -
  from first_way_SomeD [OF assms(1)] obtain xs where a: "ms n0 r1 s g = (s1, g1) # xs" ..
  from first_way_SomeD [OF assms(2)] obtain ys where b: "ms n0 r2 s1 g1 = w # ys" ..
  show ?thesis by (simp add: first_way_def a b)
qed

lemma ms_Seq_Nil: "ms n0 r1 s g = [] \<Longrightarrow> ms n0 (Seq r1 r2) s g = []"
  by simp

lemma first_way_Alt_left:
  assumes "first_way n0 r1 s g = Some w"
  shows "first_way n0 (Alt r1 r2) s g = Some w"
proof -
  from first_way_SomeD [OF assms] obtain xs where "ms n0 r1 s g = w # xs" ..
  then show ?thesis by (simp add: first_way_def)
qed

lemma first_way_Alt_right:
  "ms n0 r1 s g = [] \<Longrightarrow> first_way n0 (Alt r1 r2) s g = first_way n0 r2 s g"
  by (simp add: first_way_def)

lemma first_way_Opt_taken:
  assumes "first_way n0 r s g = Some w"
  shows "first_way n0 (Opt r) s g = Some w"
proof -
  from first_way_SomeD [OF assms] obtain xs where "ms n0 r s g = w # xs" ..
  then show ?thesis by (simp add: first_way_def)
qed

lemma first_way_Opt_skipped:
  "ms n0 r s g = [] \<Longrightarrow> first_way n0 (Opt r) s g = Some (s, g)"
  by (simp add: first_way_def)

lemma first_way_Group:
  assumes "first_way n0 r s g = Some (s', g')"
  shows "first_way n0 (Group k r) s g = Some (s', g'(k \<mapsto> take (length s - length s') s))"
proof -
  from first_way_SomeD [OF assms] obtain xs where "ms n0 r s g = (s', g') # xs" ..
  then show ?thesis by (simp add: first_way_def)
qed

lemma ms_Group_Nil: "ms n0 r s g = [] \<Longrightarrow> ms n0 (Group k r) s g = []"
  by simp

subsection \<open>Searching\<close>

lemma search_from_hit: "match_at r whole s = Some m \<Longrightarrow> search_from r whole s = Some m"
  by (cases s) simp_all

lemma search_from_skip:
  "\<forall>i<length pre. match_at r whole (drop i (pre @ s)) = None \<Longrightarrow>
   search_from r whole (pre @ s) = search_from r whole s"
proof (induction pre)
  case Nil
  show ?case by simp
next
  case (Cons x pre)
  have 0: "match_at r whole (x # pre @ s) = None"
    using Cons.prems [rule_format, of 0] by simp
  have "\<forall>i<length pre. match_at r whole (drop i (pre @ s)) = None"
  proof (intro allI impI)
    fix i assume "i < length pre"
    then have "Suc i < length (x # pre)" by simp
    from Cons.prems [rule_format, OF this]
    show "match_at r whole (drop i (pre @ s)) = None" by simp
  qed
  from Cons.IH [OF this] 0 show ?case by simp
qed

lemma match_at_first_way:
  "first_way (length whole) r s Map.empty = Some (rest, g) \<Longrightarrow>
   match_at r whole s = Some (length whole - length s, length whole - length rest, g)"
  by (simp add: match_at_def)

lemma match_at_Nil: "ms (length whole) r s Map.empty = [] \<Longrightarrow> match_at r whole s = None"
  by (simp add: match_at_def first_way_def)

subsection \<open>Characters\<close>

lemma of_char_lower_char:
  "(of_char (lower_char c) :: nat) =
     (if (65 \<le> (of_char c :: nat) \<and> (of_char c :: nat) \<le> 90)
         \<or> (192 \<le> (of_char c :: nat) \<and> (of_char c :: nat) \<le> 222 \<and> (of_char c :: nat) \<noteq> 215)
      then of_char c + 32 else of_char c)"
  by (auto simp: lower_char_def Let_def)

lemma lower_char_eq_iff:
  "lower_char c = p \<longleftrightarrow>
     (if (65 \<le> (of_char c :: nat) \<and> (of_char c :: nat) \<le> 90)
         \<or> (192 \<le> (of_char c :: nat) \<and> (of_char c :: nat) \<le> 222 \<and> (of_char c :: nat) \<noteq> 215)
      then (of_char c :: nat) + 32 = of_char p else (of_char c :: nat) = of_char p)"
proof -
  have "lower_char c = p \<longleftrightarrow> (of_char (lower_char c) :: nat) = of_char p"
    by simp
  then show ?thesis by (simp only: of_char_lower_char split: if_splits) auto
qed

lemma ci_quote [simp]: "ci (CHR 0x22) c \<longleftrightarrow> c = CHR 0x22"
  by (auto simp: ci_def lower_char_eq_iff) (simp_all add: lower_char_def flip: of_char_eq_iff [where 'a = nat])

section \<open>Properties of the parser\<close>

subsection \<open>The shape of the steps built from a line\<close>

lemma post_init_sel [simp]:
  "step_type (post_init s) = step_type s"
  "duration_seconds (post_init s) = duration_seconds s"
  "repeat_steps (post_init s) = repeat_steps s"
  "repeat_count (post_init s) = repeat_count s"
  "target_type (post_init s) = target_type s"
  by (simp_all add: post_init_def)

lemma set_intensity_sel [simp]:
  "step_type (set_intensity i s) = step_type s"
  "duration_seconds (set_intensity i s) = duration_seconds s"
  "repeat_steps (set_intensity i s) = repeat_steps s"
  by (simp_all add: set_intensity_def)

lemma apply_manual_intensity_step_type [simp]:
  "step_type (apply_manual_intensity m s) = step_type s"
  by (cases m) (simp_all add: apply_manual_intensity_def)

lemma create_special_step_type:
  "create_special_step st d n = Inr t \<Longrightarrow>
   step_type t \<in> {StepType_RAMP, StepType_STEADY, StepType_OPEN}"
  by (auto simp: create_special_step_def split: if_splits)

lemma parse_target_step_type:
  assumes "parse_target_step original line n = Inr t"
  shows "step_type t \<in> {StepType_RAMP, StepType_RANGE, StepType_STEADY}"
proof -
  obtain d where d: "parse_duration line = Some d"
    using assms by (cases "parse_duration line") (simp_all add: parse_target_step_def)
  obtain cl ch where c: "parse_cadence line = (cl, ch)" by (cases "parse_cadence line")
  obtain hl hh hp ht where h: "parse_hr line = (hl, hh, hp, ht)"
    by (cases "parse_hr line") auto
  show ?thesis
    using assms
    by (auto simp: parse_target_step_def d c h Let_def split: option.splits if_splits)
qed

lemma wrap_repeat_cases:
  "(c \<le> 1 \<and> wrap_repeat c t = t)
   \<or> (1 < c \<and> step_type (wrap_repeat c t) = StepType_REPEAT
        \<and> repeat_steps (wrap_repeat c t) = [t]
        \<and> duration_seconds (wrap_repeat c t) = 0
        \<and> repeat_count (wrap_repeat c t) = c)"
  by (simp add: wrap_repeat_def)

lemma parse_after_notes_shape:
  assumes "parse_after_notes original n line1 = Inr s"
  shows "\<exists>c t. s = wrap_repeat c t
           \<and> step_type t \<in> {StepType_RAMP, StepType_RANGE, StepType_STEADY, StepType_OPEN}"
proof -
  obtain c line where r: "extract_repeat line1 = (c, line)" by (cases "extract_repeat line1")
  let ?m = "first_keyword INTENSITY_KEYWORDS (lower line)"
  show ?thesis
  proof (cases "first_keyword SPECIAL_KEYWORDS (lower line)")
    case None
    then obtain t where t: "parse_target_step original line n = Inr t"
      and s: "s = wrap_repeat c (apply_manual_intensity ?m t)"
      using assms by (auto simp: parse_after_notes_def r Let_def split: sum.splits)
    from parse_target_step_type [OF t] s show ?thesis
      by (intro exI [of _ c] exI [of _ "apply_manual_intensity ?m t"]) auto
  next
    case (Some st)
    then obtain d t where t: "create_special_step st d n = Inr t"
      and s: "s = wrap_repeat c (apply_manual_intensity ?m t)"
      using assms
      by (auto simp: parse_after_notes_def r Let_def split: sum.splits option.splits)
    from create_special_step_type [OF t] s show ?thesis
      by (intro exI [of _ c] exI [of _ "apply_manual_intensity ?m t"]) auto
  qed
qed

lemma parse_line_shape:
  assumes "parse_line line = Inr s"
  shows "\<exists>c t. s = wrap_repeat c t
           \<and> step_type t \<in> {StepType_RAMP, StepType_RANGE, StepType_STEADY, StepType_OPEN}"
proof -
  obtain n l where "extract_notes line = (n, l)" by (cases "extract_notes line")
  with assms have "parse_after_notes line n l = Inr s" by (simp add: parse_line_def)
  then show ?thesis by (rule parse_after_notes_shape)
qed

lemma parse_line_repeat:
  assumes "parse_line line = Inr s" and "step_type s = StepType_REPEAT"
  shows "\<exists>t. repeat_steps s = [t] \<and> step_type t \<noteq> StepType_REPEAT
           \<and> duration_seconds s = 0 \<and> 1 < repeat_count s"
proof -
  from parse_line_shape [OF assms(1)] obtain c t where s: "s = wrap_repeat c t"
    and t: "step_type t \<in> {StepType_RAMP, StepType_RANGE, StepType_STEADY, StepType_OPEN}"
    by blast
  from wrap_repeat_cases [of c t] show ?thesis
  proof
    assume "c \<le> 1 \<and> wrap_repeat c t = t"
    with s t assms(2) show ?thesis by auto
  next
    assume "1 < c \<and> step_type (wrap_repeat c t) = StepType_REPEAT
        \<and> repeat_steps (wrap_repeat c t) = [t]
        \<and> duration_seconds (wrap_repeat c t) = 0
        \<and> repeat_count (wrap_repeat c t) = c"
    with s t show ?thesis by auto
  qed
qed

lemma parse_loop_steps:
  assumes "parse_loop k ls acc = Inr out"
  shows "\<forall>s\<in>set out. s \<in> set acc \<or> (\<exists>l\<in>set ls. parse_line l = Inr s)"
  using assms
proof (induction ls arbitrary: k acc)
  case Nil
  then show ?case by simp
next
  case (Cons l ls)
  show ?case
  proof (cases "startswith l ''#'' \<or> startswith l ''//''")
    case True
    with Cons.prems have "parse_loop (k + 1) ls acc = Inr out" by simp
    from Cons.IH [OF this] show ?thesis by auto
  next
    case False
    with Cons.prems obtain st where st: "parse_line l = Inr st"
      and r: "parse_loop (k + 1) ls (acc @ [st]) = Inr out"
      by (auto split: sum.splits)
    from Cons.IH [OF r] st show ?thesis by auto
  qed
qed

lemma parse_steps:
  assumes "parse text = Inr out"
  shows "out \<noteq> [] \<and> (\<forall>s\<in>set out. \<exists>l. parse_line l = Inr s)"
proof -
  let ?ls = "filter (\<lambda>l. l \<noteq> []) (map strip (split_lines (strip text)))"
  from assms have r: "parse_loop 1 ?ls [] = Inr out" and ne: "out \<noteq> []"
    by (auto simp: parse_def split: sum.splits if_splits)
  from parse_loop_steps [OF r] ne show ?thesis by auto
qed

lemma parse_target_step_no_target:
  assumes "parse_duration line \<noteq> None"
    and "re_search POWER_RAMP_PATTERN line = None"
    and "re_search POWER_RANGE_PATTERN line = None"
    and "re_search POWER_STEADY_PATTERN line = None"
    and "re_search HR_PERCENTAGE_PATTERN line = None"
    and "re_search HR_ABSOLUTE_PATTERN line = None"
  shows "parse_target_step original line n =
           Inl (WorkoutParseError (''No power or HR target found in: '' @ original))"
proof -
  obtain d where d: "parse_duration line = Some d" using assms(1) by auto
  obtain cl ch where c: "parse_cadence line = (cl, ch)" by (cases "parse_cadence line")
  have h: "parse_hr line = (0, 0, False, None)" using assms(5,6) by (simp add: parse_hr_def)
  show ?thesis using assms(2,3,4) by (simp add: parse_target_step_def d c h)
qed

subsection \<open>The duration pattern on a duration token\<close>

lemma lower_char_letters [simp]:
  "lower_char (CHR ''s'') = CHR ''s''" "lower_char (CHR ''e'') = CHR ''e''"
  "lower_char (CHR ''c'') = CHR ''c''" "lower_char (CHR ''o'') = CHR ''o''"
  "lower_char (CHR ''n'') = CHR ''n''" "lower_char (CHR ''d'') = CHR ''d''"
  "lower_char (CHR ''m'') = CHR ''m''" "lower_char (CHR ''i'') = CHR ''i''"
  "lower_char (CHR ''u'') = CHR ''u''" "lower_char (CHR ''t'') = CHR ''t''"
  "lower_char (CHR ''h'') = CHR ''h''" "lower_char (CHR ''r'') = CHR ''r''"
  "lower_char (CHR ''.'') = CHR ''.''"
  by (simp_all add: lower_char_def)

lemma unit_letter_not_space_digit:
  assumes "lower_char c \<in> {CHR ''s'', CHR ''m'', CHR ''h''}"
  shows "\<not> is_space c" and "\<not> is_digit c" and "lower_char c \<noteq> CHR ''.''"
  using assms by (auto simp: lower_char_eq_iff is_space_def is_digit_def split: if_splits)

lemma space_not_digit_dot:
  assumes "is_space c"
  shows "\<not> is_digit c" and "lower_char c \<noteq> CHR ''.''"
  using assms by (auto simp: lower_char_eq_iff is_space_def is_digit_def split: if_splits)

lemma dot_not_digit: "\<not> is_digit (CHR ''.'')"
  by (simp add: is_digit_def)

lemma digit_not_dot: "is_digit c \<Longrightarrow> c \<noteq> CHR ''.''"
  by (auto simp: is_digit_def)

lemma unit_first_way:
  assumes "lower_char c \<in> {CHR ''s'', CHR ''m'', CHR ''h''}"
  shows "first_way n0 unit_alternatives (c # rest) g = Some (rest, g)"
proof -
  from assms consider "lower_char c = CHR ''s''" | "lower_char c = CHR ''m''"
    | "lower_char c = CHR ''h''" by auto
  then show ?thesis
  proof cases
    case 1
    then show ?thesis by (simp add: unit_alternatives_def first_way_def ci_def)
  next
    case 2
    then show ?thesis by (simp add: unit_alternatives_def first_way_def ci_def)
  next
    case 3
    then show ?thesis by (simp add: unit_alternatives_def first_way_def ci_def)
  qed
qed

lemma unit_spelling:
  assumes "lower u \<in> set [''s'', ''sec'', ''second'', ''seconds'', ''m'', ''min'', ''minute'',
                          ''minutes'', ''h'', ''hr'', ''hour'', ''hours'']"
  shows "\<exists>c u'. u = c # u' \<and> lower_char c \<in> {CHR ''s'', CHR ''m'', CHR ''h''}
           \<and> (lower_char c = CHR ''s'' \<longleftrightarrow>
                lower u \<in> set [''s'', ''sec'', ''second'', ''seconds''])
           \<and> (lower_char c = CHR ''m'' \<longleftrightarrow>
                lower u \<in> set [''m'', ''min'', ''minute'', ''minutes''])"
proof (cases u)
  case Nil
  with assms show ?thesis by (simp add: lower_def)
next
  case (Cons c u')
  with assms show ?thesis by (auto simp: lower_def)
qed

lemma number_first_way:
  assumes "ds \<noteq> []" and "\<forall>c\<in>set ds. is_digit c"
    and "fr = [] \<or> (\<exists>fs. fr = CHR ''.'' # fs \<and> fs \<noteq> [] \<and> (\<forall>c\<in>set fs. is_digit c))"
    and "r \<noteq> []" and "\<not> is_digit (hd r)" and "lower_char (hd r) \<noteq> CHR ''.''"
  shows "first_way n0 number (ds @ fr @ r) g = Some (r, g)"
proof -
  have hd: "fr @ r = [] \<or> \<not> is_digit (hd (fr @ r))"
    using assms(3,5) by (auto simp: dot_not_digit)
  have a: "first_way n0 (Plus is_digit) (ds @ fr @ r) g = Some (fr @ r, g)"
    by (rule first_way_Plus [OF assms(1,2) hd])
  have b: "first_way n0 (Opt (Seq (Cls (ci CHR ''.'')) (Plus is_digit))) (fr @ r) g
             = Some (r, g)"
    using assms(3)
  proof
    assume "fr = []"
    moreover have "ms n0 (Seq (Cls (ci CHR ''.'')) (Plus is_digit)) r g = []"
      using assms(6) by (intro ms_Seq_Nil ms_Cls_Nil) (simp add: ci_def)
    ultimately show ?thesis by (simp add: first_way_Opt_skipped)
  next
    assume "\<exists>fs. fr = CHR ''.'' # fs \<and> fs \<noteq> [] \<and> (\<forall>c\<in>set fs. is_digit c)"
    then obtain fs where f: "fr = CHR ''.'' # fs" "fs \<noteq> []" "\<forall>c\<in>set fs. is_digit c"
      by blast
    have 1: "first_way n0 (Cls (ci CHR ''.'')) (fr @ r) g = Some (fs @ r, g)"
      unfolding f(1) append_Cons by (rule first_way_Cls) (simp add: ci_def)
    have 2: "first_way n0 (Plus is_digit) (fs @ r) g = Some (r, g)"
      by (rule first_way_Plus [OF f(2,3)]) (use assms(5) in simp)
    show ?thesis by (rule first_way_Opt_taken [OF first_way_Seq [OF 1 2]])
  qed
  show ?thesis unfolding number_def by (rule first_way_Seq [OF a b])
qed

lemma duration_first_way:
  assumes "ds \<noteq> []" and "\<forall>c\<in>set ds. is_digit c"
    and "fr = [] \<or> (\<exists>fs. fr = CHR ''.'' # fs \<and> fs \<noteq> [] \<and> (\<forall>c\<in>set fs. is_digit c))"
    and "\<forall>c\<in>set ws. is_space c"
    and "lower_char c \<in> {CHR ''s'', CHR ''m'', CHR ''h''}"
  shows "first_way n0 DURATION_PATTERN (ds @ fr @ ws @ c # rest) Map.empty
           = Some (rest, [1 \<mapsto> ds @ fr, 2 \<mapsto> [c]])"
proof -
  let ?r = "ws @ c # rest"
  note u = unit_letter_not_space_digit [OF assms(5)]
  have hd: "\<not> is_digit (hd ?r)" "lower_char (hd ?r) \<noteq> CHR ''.''"
    using assms(4) u space_not_digit_dot by (cases ws; auto)+
  have "first_way n0 number (ds @ fr @ ?r) Map.empty = Some (?r, Map.empty)"
    by (rule number_first_way [OF assms(1,2,3) _ hd]) simp
  from first_way_Group [OF this, of 1]
  have a: "first_way n0 (Group 1 number) (ds @ fr @ ?r) Map.empty
             = Some (?r, [1 \<mapsto> ds @ fr])"
    by simp
  have b: "first_way n0 (Star is_space) (ws @ c # rest) [1 \<mapsto> ds @ fr]
             = Some (c # rest, [1 \<mapsto> ds @ fr])"
    by (rule first_way_Star [OF assms(4)]) (simp add: u)
  have "first_way n0 unit_alternatives (c # rest) [1 \<mapsto> ds @ fr]
          = Some (rest, [1 \<mapsto> ds @ fr])"
    by (rule unit_first_way [OF assms(5)])
  from first_way_Group [OF this, of 2]
  have c: "first_way n0 (Group 2 unit_alternatives) (c # rest) [1 \<mapsto> ds @ fr]
             = Some (rest, [1 \<mapsto> ds @ fr, 2 \<mapsto> [c]])"
    by simp
  show ?thesis
    unfolding DURATION_PATTERN_def seqs.simps
    by (rule first_way_Seq [OF a first_way_Seq [OF b c]])
qed

lemma duration_no_way:
  "s = [] \<or> \<not> is_digit (hd s) \<Longrightarrow> ms n0 DURATION_PATTERN s g = []"
  unfolding DURATION_PATTERN_def seqs.simps number_def
  by (intro ms_Seq_Nil ms_Group_Nil ms_Plus_Nil)

lemma no_digit_no_duration:
  assumes "\<forall>c\<in>set pre. \<not> is_digit c"
  shows "\<forall>i<length pre. match_at DURATION_PATTERN whole (drop i (pre @ s)) = None"
proof (intro allI impI)
  fix i assume i: "i < length pre"
  then have "drop i (pre @ s) = pre ! i # drop (Suc i) (pre @ s)"
    by (simp add: Cons_nth_drop_Suc nth_append)
  moreover have "\<not> is_digit (pre ! i)" using assms i by simp
  ultimately have "ms (length whole) DURATION_PATTERN (drop i (pre @ s)) Map.empty = []"
    by (intro duration_no_way) simp
  then show "match_at DURATION_PATTERN whole (drop i (pre @ s)) = None" by (rule match_at_Nil)
qed

subsection \<open>The notes pattern, and steps up to their notes\<close>

lemma notes_first_way:
  assumes "q \<noteq> []" and "CHR 0x22 \<notin> set q"
  shows "first_way n0 NOTES_PATTERN (CHR 0x22 # q @ CHR 0x22 # post) Map.empty
           = Some (post, [1 \<mapsto> q])"
proof -
  have a: "first_way n0 (Cls (ci (CHR 0x22))) (CHR 0x22 # q @ CHR 0x22 # post) Map.empty
             = Some (q @ CHR 0x22 # post, Map.empty)"
    by (rule first_way_Cls) simp
  have "first_way n0 (Plus not_quote) (q @ CHR 0x22 # post) Map.empty
          = Some (CHR 0x22 # post, Map.empty)"
    using assms by (intro first_way_Plus) (auto simp: not_quote_def)
  from first_way_Group [OF this, of 1]
  have b: "first_way n0 (Group 1 (Plus not_quote)) (q @ CHR 0x22 # post) Map.empty
             = Some (CHR 0x22 # post, [1 \<mapsto> q])"
    by simp
  have c: "first_way n0 (Cls (ci (CHR 0x22))) (CHR 0x22 # post) [1 \<mapsto> q]
             = Some (post, [1 \<mapsto> q])"
    by (rule first_way_Cls) simp
  show ?thesis
    unfolding NOTES_PATTERN_def seqs.simps
    by (rule first_way_Seq [OF a]) (rule first_way_Seq [OF b c])
qed

lemma notes_no_way: "s = [] \<or> hd s \<noteq> CHR 0x22 \<Longrightarrow> ms n0 NOTES_PATTERN s g = []"
  unfolding NOTES_PATTERN_def seqs.simps
  by (rule ms_Seq_Nil, rule ms_Cls_Nil) simp

lemma notes_search:
  assumes "CHR 0x22 \<notin> set pre" and "q \<noteq> []" and "CHR 0x22 \<notin> set q"
  shows "re_search NOTES_PATTERN (pre @ CHR 0x22 # q @ CHR 0x22 # post)
           = Some (length pre, length pre + length q + 2, [1 \<mapsto> q])"
proof -
  let ?s = "CHR 0x22 # q @ CHR 0x22 # post"
  let ?w = "pre @ ?s"
  have skip: "\<forall>i<length pre. match_at NOTES_PATTERN ?w (drop i (pre @ ?s)) = None"
  proof (intro allI impI)
    fix i assume i: "i < length pre"
    then have "drop i (pre @ ?s) = pre ! i # drop (Suc i) (pre @ ?s)"
      by (simp add: Cons_nth_drop_Suc nth_append)
    moreover have "pre ! i \<noteq> CHR 0x22" using assms(1) i by (metis nth_mem)
    ultimately have "ms (length ?w) NOTES_PATTERN (drop i (pre @ ?s)) Map.empty = []"
      by (intro notes_no_way) simp
    then show "match_at NOTES_PATTERN ?w (drop i (pre @ ?s)) = None" by (rule match_at_Nil)
  qed
  have "match_at NOTES_PATTERN ?w ?s
          = Some (length ?w - length ?s, length ?w - length post, [1 \<mapsto> q])"
    by (rule match_at_first_way) (rule notes_first_way [OF assms(2,3)])
  then have hit: "search_from NOTES_PATTERN ?w ?s
          = Some (length pre, length pre + length q + 2, [1 \<mapsto> q])"
    by (simp add: search_from_hit)
  show ?thesis
    unfolding re_search_def using search_from_skip [OF skip] hit by simp
qed

lemma extract_notes_quoted:
  assumes "CHR 0x22 \<notin> set pre" and "q \<noteq> []" and "CHR 0x22 \<notin> set q"
  shows "extract_notes (pre @ CHR 0x22 # q @ CHR 0x22 # post) = (q, pre @ post)"
  by (simp add: extract_notes_def notes_search [OF assms] group_def)

lemma clear_notes_post_init: "clear_notes (post_init s) = post_init (clear_notes s)"
  by (simp add: clear_notes_def post_init_def)

lemma clear_notes_set_intensity:
  "clear_notes (set_intensity i s) = set_intensity i (clear_notes s)"
  by (simp add: clear_notes_def set_intensity_def)

lemma clear_notes_apply_manual_intensity:
  "clear_notes (apply_manual_intensity m s) = apply_manual_intensity m (clear_notes s)"
  by (cases m) (simp_all add: apply_manual_intensity_def clear_notes_set_intensity)

lemma without_notes_clear:
  "clear_notes t = clear_notes t' \<Longrightarrow> without_notes t = without_notes t'"
  by (simp add: clear_notes_def without_notes_def)

lemma without_notes_wrap_repeat:
  "clear_notes t = clear_notes t' \<Longrightarrow>
   without_notes (wrap_repeat c t) = without_notes (wrap_repeat c t')"
  by (simp add: wrap_repeat_def without_notes_def post_init_def clear_notes_def)

lemma create_special_step_notes_free:
  "map_sum (\<lambda>e. ()) clear_notes (create_special_step st d n)
   = map_sum (\<lambda>e. ()) clear_notes (create_special_step st d n')"
  by (simp add: create_special_step_def clear_notes_post_init) (simp add: clear_notes_def)

lemma parse_target_step_notes_free:
  "map_sum (\<lambda>e. ()) clear_notes (parse_target_step original line n)
   = map_sum (\<lambda>e. ()) clear_notes (parse_target_step original' line n')"
proof -
  obtain cl ch where c: "parse_cadence line = (cl, ch)" by (cases "parse_cadence line")
  obtain hl hh hp ht where h: "parse_hr line = (hl, hh, hp, ht)"
    by (cases "parse_hr line") auto
  show ?thesis
    by (auto simp: parse_target_step_def c h Let_def clear_notes_def post_init_def
        split: option.splits)
qed

lemma parse_after_notes_free:
  "map_sum (\<lambda>e. ()) without_notes (parse_after_notes original n line1)
   = map_sum (\<lambda>e. ()) without_notes (parse_after_notes original' n' line1)"
proof -
  obtain c line where r: "extract_repeat line1 = (c, line)" by (cases "extract_repeat line1")
  let ?m = "first_keyword INTENSITY_KEYWORDS (lower line)"
  show ?thesis
  proof (cases "first_keyword SPECIAL_KEYWORDS (lower line)")
    case None
    note e = parse_target_step_notes_free [of original line n original' n']
    show ?thesis
    proof (cases "parse_target_step original line n")
      case (Inl a)
      with e obtain b where "parse_target_step original' line n' = Inl b"
        by (cases "parse_target_step original' line n'") auto
      with Inl None show ?thesis by (simp add: parse_after_notes_def r Let_def)
    next
      case (Inr t)
      with e obtain t' where t': "parse_target_step original' line n' = Inr t'"
        and ct: "clear_notes t = clear_notes t'"
        by (cases "parse_target_step original' line n'") auto
      from ct have "clear_notes (apply_manual_intensity ?m t)
                  = clear_notes (apply_manual_intensity ?m t')"
        by (simp add: clear_notes_apply_manual_intensity)
      from without_notes_wrap_repeat [OF this, of c] Inr t' None
      show ?thesis by (simp add: parse_after_notes_def r Let_def)
    qed
  next
    case (Some st)
    show ?thesis
    proof (cases "parse_duration line")
      case None
      with Some show ?thesis by (simp add: parse_after_notes_def r Let_def)
    next
      case d: (Some d)
      note e = create_special_step_notes_free [of st d n n']
      show ?thesis
      proof (cases "create_special_step st d n")
        case (Inl a)
        with e obtain b where "create_special_step st d n' = Inl b"
          by (cases "create_special_step st d n'") auto
        with Inl Some d show ?thesis by (simp add: parse_after_notes_def r Let_def)
      next
        case (Inr t)
        with e obtain t' where t': "create_special_step st d n' = Inr t'"
          and ct: "clear_notes t = clear_notes t'"
          by (cases "create_special_step st d n'") auto
        from ct have "clear_notes (apply_manual_intensity ?m t)
                    = clear_notes (apply_manual_intensity ?m t')"
          by (simp add: clear_notes_apply_manual_intensity)
        from without_notes_wrap_repeat [OF this, of c] Inr t' Some d
        show ?thesis by (simp add: parse_after_notes_def r Let_def)
      qed
    qed
  qed
qed

subsection \<open>The branches of the power target\<close>

lemma post_init_power [simp]:
  "power_low_pct (post_init s) = power_low_pct s"
  "step_type s \<noteq> StepType_STEADY \<Longrightarrow> power_high_pct (post_init s) = power_high_pct s"
  "notes_step (post_init s) = notes_step s"
  by (simp_all add: post_init_def)

lemma apply_manual_intensity_sel [simp]:
  "duration_seconds (apply_manual_intensity m s) = duration_seconds s"
  "target_type (apply_manual_intensity m s) = target_type s"
  "power_low_pct (apply_manual_intensity m s) = power_low_pct s"
  "power_high_pct (apply_manual_intensity m s) = power_high_pct s"
  "notes_step (apply_manual_intensity m s) = notes_step s"
  "repeat_steps (apply_manual_intensity m s) = repeat_steps s"
  by (cases m; simp add: apply_manual_intensity_def set_intensity_def)+

lemma parse_line_target:
  assumes "line = snd (extract_repeat (snd (extract_notes original_line)))"
    and "c = fst (extract_repeat (snd (extract_notes original_line)))"
    and "first_keyword SPECIAL_KEYWORDS (lower line) = None"
    and "parse_target_step original_line line (fst (extract_notes original_line)) = Inr t"
  shows "parse_line original_line =
           Inr (wrap_repeat c
                  (apply_manual_intensity (first_keyword INTENSITY_KEYWORDS (lower line)) t))"
proof -
  obtain n l1 where n: "extract_notes original_line = (n, l1)"
    by (cases "extract_notes original_line")
  obtain c' l where r: "extract_repeat l1 = (c', l)" by (cases "extract_repeat l1")
  have l: "l = line" "c' = c" using assms(1,2) n r by simp_all
  show ?thesis
    using assms(3,4) by (simp add: parse_line_def n parse_after_notes_def r l Let_def)
qed

lemma parse_target_step_ramp:
  assumes "parse_duration line = Some d"
    and "matched_numbers POWER_RAMP_PATTERN line = Some (lo, hi)"
  shows "\<exists>t. parse_target_step original line n = Inr t \<and> step_type t = StepType_RAMP
           \<and> target_type t = TargetType_POWER \<and> duration_seconds t = d
           \<and> power_low_pct t = float_of_str lo \<and> power_high_pct t = float_of_str hi"
proof -
  obtain cl ch where c: "parse_cadence line = (cl, ch)" by (cases "parse_cadence line")
  obtain hl hh hp ht where h: "parse_hr line = (hl, hh, hp, ht)"
    by (cases "parse_hr line") auto
  from assms(2) obtain i j g where g: "re_search POWER_RAMP_PATTERN line = Some (i, j, g)"
    and lo: "lo = group g 1" and hi: "hi = group g 2"
    by (auto simp: matched_numbers_def)
  show ?thesis by (simp add: parse_target_step_def assms(1) c h g lo hi Let_def)
qed

lemma parse_target_step_steady:
  assumes "parse_duration line = Some d"
    and "re_search POWER_RAMP_PATTERN line = None"
    and "re_search POWER_RANGE_PATTERN line = None"
    and "matched_numbers POWER_STEADY_PATTERN line = Some (p, q)"
  shows "\<exists>t. parse_target_step original line n = Inr t \<and> step_type t = StepType_STEADY
           \<and> target_type t = TargetType_POWER \<and> duration_seconds t = d
           \<and> power_low_pct t = float_of_str p \<and> power_high_pct t = float_of_str p"
proof -
  obtain cl ch where c: "parse_cadence line = (cl, ch)" by (cases "parse_cadence line")
  obtain hl hh hp ht where h: "parse_hr line = (hl, hh, hp, ht)"
    by (cases "parse_hr line") auto
  from assms(4) obtain i j g where g: "re_search POWER_STEADY_PATTERN line = Some (i, j, g)"
    and p: "p = group g 1"
    by (auto simp: matched_numbers_def)
  show ?thesis
    by (simp add: parse_target_step_def assms(1,2,3) c h g p Let_def post_init_def)
qed

lemma parse_target_step_notes:
  assumes "parse_target_step original line n = Inr t"
  shows "notes_step t = n"
proof -
  obtain d where d: "parse_duration line = Some d"
    using assms by (cases "parse_duration line") (simp_all add: parse_target_step_def)
  obtain cl ch where c: "parse_cadence line = (cl, ch)" by (cases "parse_cadence line")
  obtain hl hh hp ht where h: "parse_hr line = (hl, hh, hp, ht)"
    by (cases "parse_hr line") auto
  show ?thesis
    using assms
    by (auto simp: parse_target_step_def d c h Let_def split: option.splits if_splits)
qed

lemma create_special_step_notes:
  "n \<noteq> [] \<Longrightarrow> create_special_step st d n = Inr t \<Longrightarrow> notes_step t = n"
  by (auto simp: create_special_step_def split: if_splits)

lemma wrap_repeat_notes:
  assumes "step_type t \<noteq> StepType_REPEAT" and "notes_step t = n"
  shows "if step_type (wrap_repeat c t) = StepType_REPEAT
         then map notes_step (repeat_steps (wrap_repeat c t)) = [n]
         else notes_step (wrap_repeat c t) = n"
  using assms by (simp add: wrap_repeat_def)

lemma parse_after_notes_notes:
  assumes "n \<noteq> []" and "parse_after_notes original n line1 = Inr s"
  shows "if step_type s = StepType_REPEAT
         then map notes_step (repeat_steps s) = [n] else notes_step s = n"
proof -
  obtain c line where r: "extract_repeat line1 = (c, line)" by (cases "extract_repeat line1")
  let ?m = "first_keyword INTENSITY_KEYWORDS (lower line)"
  have "\<exists>t. s = wrap_repeat c (apply_manual_intensity ?m t)
          \<and> step_type t \<noteq> StepType_REPEAT \<and> notes_step t = n"
  proof (cases "first_keyword SPECIAL_KEYWORDS (lower line)")
    case None
    then obtain t where t: "parse_target_step original line n = Inr t"
      and s: "s = wrap_repeat c (apply_manual_intensity ?m t)"
      using assms(2) by (auto simp: parse_after_notes_def r Let_def split: sum.splits)
    from parse_target_step_type [OF t] parse_target_step_notes [OF t] s
    show ?thesis by auto
  next
    case (Some st)
    then obtain d t where t: "create_special_step st d n = Inr t"
      and s: "s = wrap_repeat c (apply_manual_intensity ?m t)"
      using assms(2)
      by (auto simp: parse_after_notes_def r Let_def split: sum.splits option.splits)
    from create_special_step_type [OF t] create_special_step_notes [OF assms(1) t] s
    show ?thesis by auto
  qed
  then obtain t where s: "s = wrap_repeat c (apply_manual_intensity ?m t)"
    and t: "step_type (apply_manual_intensity ?m t) \<noteq> StepType_REPEAT"
      "notes_step (apply_manual_intensity ?m t) = n"
    by auto
  from wrap_repeat_notes [OF t, of c] show ?thesis unfolding s .
qed

subsection \<open>The range branch of the power target\<close>

text \<open>
  The ramp pattern is the range pattern with an optional percent sign and whitespace put in
  after the first number, so every way the range pattern matches is a way the ramp pattern
  matches: where the range pattern is found the ramp pattern is found too, the \<open>elif
  range_match\<close> branch is never taken, and no line gives a step of type \<open>RANGE\<close>.
\<close>

lemma star_ms_self: "s \<in> set (star_ms p s)"
  by (cases s) simp_all

lemma ms_Seq_mono:
  assumes "\<And>s' g'. set (ms n0 p s' g') \<subseteq> set (ms n0 p' s' g')"
  shows "set (ms n0 (Seq r p) s g) \<subseteq> set (ms n0 (Seq r p') s g)"
proof
  fix x assume "x \<in> set (ms n0 (Seq r p) s g)"
  then obtain s' g' where w: "(s', g') \<in> set (ms n0 r s g)" and x: "x \<in> set (ms n0 p s' g')"
    by auto
  from x assms have "x \<in> set (ms n0 p' s' g')" by blast
  with w show "x \<in> set (ms n0 (Seq r p') s g)" by force
qed

lemma ms_Seq_skip:
  assumes "(s, g) \<in> set (ms n0 r s g)"
  shows "set (ms n0 p s g) \<subseteq> set (ms n0 (Seq r p) s g)"
  using assms by force


lemma power_patterns_unfolded:
  "POWER_RANGE_PATTERN =
     Seq (Group 1 number) (Seq (Star is_space)
       (seqs ([Plus is_dash, Star is_space, Group 2 number] @ pct_ftp)))"
  "POWER_RAMP_PATTERN =
     Seq (Group 1 number) (Seq (Star is_space)
       (Seq (Opt (Cls (ci CHR ''%''))) (Seq (Star is_space)
          (seqs ([Plus is_dash, Star is_space, Group 2 number] @ pct_ftp)))))"
  by (simp_all add: POWER_RANGE_PATTERN_def POWER_RAMP_PATTERN_def pct_ftp_def)

lemma range_ways_are_ramp_ways:
  "set (ms n0 POWER_RANGE_PATTERN s g) \<subseteq> set (ms n0 POWER_RAMP_PATTERN s g)"
proof -
  let ?rest = "seqs ([Plus is_dash, Star is_space, Group 2 number] @ pct_ftp)"
  have step: "set (ms n0 ?rest s' g')
                \<subseteq> set (ms n0 (Seq (Opt (Cls (ci CHR ''%''))) (Seq (Star is_space) ?rest)) s' g')"
    for s' g'
  proof -
    have 1: "(s', g') \<in> set (ms n0 (Star is_space) s' g')"
      using star_ms_self [of s' is_space] by simp
    have 2: "(s', g') \<in> set (ms n0 (Opt (Cls (ci CHR ''%''))) s' g')" by simp
    from ms_Seq_skip [OF 1] ms_Seq_skip [OF 2] show ?thesis by blast
  qed
  show ?thesis
    unfolding power_patterns_unfolded
    by (rule ms_Seq_mono, rule ms_Seq_mono, rule step)
qed


lemma range_match_is_ramp_match:
  assumes "match_at POWER_RANGE_PATTERN whole s \<noteq> None"
  shows "match_at POWER_RAMP_PATTERN whole s \<noteq> None"
proof -
  from assms have "ms (length whole) POWER_RANGE_PATTERN s Map.empty \<noteq> []"
    by (auto simp: match_at_def first_way_def)
  then obtain w where "w \<in> set (ms (length whole) POWER_RANGE_PATTERN s Map.empty)"
    by (cases "ms (length whole) POWER_RANGE_PATTERN s Map.empty") auto
  with range_ways_are_ramp_ways [of "length whole" s Map.empty]
  have "w \<in> set (ms (length whole) POWER_RAMP_PATTERN s Map.empty)" by blast
  then obtain v vs where "ms (length whole) POWER_RAMP_PATTERN s Map.empty = v # vs"
    by (cases "ms (length whole) POWER_RAMP_PATTERN s Map.empty") auto
  then show ?thesis by (cases v) (simp add: match_at_def first_way_def)
qed

lemma range_search_is_ramp_search:
  "search_from POWER_RANGE_PATTERN whole s \<noteq> None \<Longrightarrow>
   search_from POWER_RAMP_PATTERN whole s \<noteq> None"
proof (induction s)
  case Nil
  then show ?case using range_match_is_ramp_match [of whole "[]"] by simp
next
  case (Cons c cs)
  show ?case
  proof (cases "match_at POWER_RANGE_PATTERN whole (c # cs)")
    case None
    with Cons have "search_from POWER_RAMP_PATTERN whole cs \<noteq> None" by simp
    then show ?thesis by (cases "match_at POWER_RAMP_PATTERN whole (c # cs)") simp_all
  next
    case (Some m)
    then have "match_at POWER_RAMP_PATTERN whole (c # cs) \<noteq> None"
      by (intro range_match_is_ramp_match) simp
    then show ?thesis by (cases "match_at POWER_RAMP_PATTERN whole (c # cs)") simp_all
  qed
qed

lemma range_branch_unreachable:
  assumes "re_search POWER_RAMP_PATTERN line = None"
  shows "re_search POWER_RANGE_PATTERN line = None"
proof (cases "re_search POWER_RANGE_PATTERN line")
  case None
  then show ?thesis .
next
  case (Some m)
  then have "search_from POWER_RANGE_PATTERN line line \<noteq> None" by (simp add: re_search_def)
  from range_search_is_ramp_search [OF this] assms show ?thesis by (simp add: re_search_def)
qed


lemma parse_target_step_never_range:
  assumes "parse_target_step original line n = Inr t"
  shows "step_type t \<noteq> StepType_RANGE"
proof -
  obtain d where d: "parse_duration line = Some d"
    using assms by (cases "parse_duration line") (simp_all add: parse_target_step_def)
  obtain cl ch where c: "parse_cadence line = (cl, ch)" by (cases "parse_cadence line")
  obtain hl hh hp ht where h: "parse_hr line = (hl, hh, hp, ht)"
    by (cases "parse_hr line") auto
  show ?thesis
  proof (cases "re_search POWER_RAMP_PATTERN line")
    case (Some m)
    obtain i j g where m: "m = (i, j, g)" by (cases m)
    from assms have "step_type t = StepType_RAMP"
      by (auto simp: parse_target_step_def d c h Some m Let_def post_init_def)
    then show ?thesis by simp
  next
    case None
    note r = range_branch_unreachable [OF None]
    show ?thesis
    proof (cases "re_search POWER_STEADY_PATTERN line")
      case (Some m)
      obtain i j g where m: "m = (i, j, g)" by (cases m)
      from assms have "step_type t = StepType_STEADY"
        by (auto simp: parse_target_step_def d c h None r Some m Let_def post_init_def)
      then show ?thesis by simp
    next
      case st: None
      from assms have "step_type t = StepType_STEADY"
        by (auto simp: parse_target_step_def d c h None r st post_init_def split: if_splits)
      then show ?thesis by simp
    qed
  qed
qed

lemma parse_line_never_range:
  assumes "parse_line original = Inr s"
  shows "step_type s \<noteq> StepType_RANGE
         \<and> (step_type s = StepType_REPEAT \<longrightarrow>
              (\<forall>t\<in>set (repeat_steps s). step_type t \<noteq> StepType_RANGE))"
proof -
  obtain n l1 where n: "extract_notes original = (n, l1)" by (cases "extract_notes original")
  obtain c line where r: "extract_repeat l1 = (c, line)" by (cases "extract_repeat l1")
  let ?m = "first_keyword INTENSITY_KEYWORDS (lower line)"
  from assms have p: "parse_after_notes original n l1 = Inr s" by (simp add: parse_line_def n)
  have "\<exists>t. s = wrap_repeat c t
          \<and> step_type t \<in> {StepType_RAMP, StepType_STEADY, StepType_OPEN}"
  proof (cases "first_keyword SPECIAL_KEYWORDS (lower line)")
    case None
    then obtain t where t: "parse_target_step original line n = Inr t"
      and s: "s = wrap_repeat c (apply_manual_intensity ?m t)"
      using p by (auto simp: parse_after_notes_def r Let_def split: sum.splits)
    from parse_target_step_type [OF t] parse_target_step_never_range [OF t] s
    show ?thesis by (intro exI [of _ "apply_manual_intensity ?m t"]) auto
  next
    case (Some st)
    then obtain d t where t: "create_special_step st d n = Inr t"
      and s: "s = wrap_repeat c (apply_manual_intensity ?m t)"
      using p by (auto simp: parse_after_notes_def r Let_def split: sum.splits option.splits)
    from create_special_step_type [OF t] s show ?thesis
      by (intro exI [of _ "apply_manual_intensity ?m t"]) auto
  qed
  then obtain t where s: "s = wrap_repeat c t"
    and t: "step_type t \<in> {StepType_RAMP, StepType_STEADY, StepType_OPEN}"
    by blast
  from wrap_repeat_cases [of c t] show ?thesis
  proof
    assume "c \<le> 1 \<and> wrap_repeat c t = t"
    with s t show ?thesis by auto
  next
    assume "1 < c \<and> step_type (wrap_repeat c t) = StepType_REPEAT
        \<and> repeat_steps (wrap_repeat c t) = [t]
        \<and> duration_seconds (wrap_repeat c t) = 0
        \<and> repeat_count (wrap_repeat c t) = c"
    with s t show ?thesis by auto
  qed
qed

subsection \<open>The claims about the parser\<close>

text \<open>
  Claim C2, as amended. Take a line with no special keyword whose duration parses, and let
  \<open>line\<close> be what is left of it after the notes and the repeat prefix are taken away. If the
  ramp pattern matches \<open>line\<close> and the range pattern does not (the form \<open>N% - M% FTP\<close>, with a
  percent sign after the first number), the parser builds a step of type \<open>RAMP\<close> whose power
  bounds are the two numbers matched. If only the one-number pattern matches, the parser
  builds a step of type \<open>STEADY\<close> whose two power bounds are both that number. In both cases
  the step is wrapped in a repeat block when the line has a repeat prefix above one. Nothing
  is said here of a line on which the range pattern matches too.
\<close>

theorem power_target_step_kind:
  assumes "line = snd (extract_repeat (snd (extract_notes original_line)))"
    and "c = fst (extract_repeat (snd (extract_notes original_line)))"
    and "first_keyword SPECIAL_KEYWORDS (lower line) = None"
    and "parse_duration line = Some d"
  shows "(matched_numbers POWER_RAMP_PATTERN line = Some (lo, hi)
          \<and> re_search POWER_RANGE_PATTERN line = None \<longrightarrow>
            (\<exists>t. parse_line original_line = Inr (wrap_repeat c t)
               \<and> step_type t = StepType_RAMP \<and> target_type t = TargetType_POWER
               \<and> duration_seconds t = d
               \<and> power_low_pct t = float_of_str lo \<and> power_high_pct t = float_of_str hi))
       \<and> (re_search POWER_RAMP_PATTERN line = None
          \<and> re_search POWER_RANGE_PATTERN line = None
          \<and> matched_numbers POWER_STEADY_PATTERN line = Some (p, q) \<longrightarrow>
            (\<exists>t. parse_line original_line = Inr (wrap_repeat c t)
               \<and> step_type t = StepType_STEADY \<and> target_type t = TargetType_POWER
               \<and> duration_seconds t = d
               \<and> power_low_pct t = float_of_str p \<and> power_high_pct t = float_of_str p))"
proof (rule conjI)
  let ?n = "fst (extract_notes original_line)"
  let ?m = "first_keyword INTENSITY_KEYWORDS (lower line)"
  show "matched_numbers POWER_RAMP_PATTERN line = Some (lo, hi)
          \<and> re_search POWER_RANGE_PATTERN line = None \<longrightarrow>
            (\<exists>t. parse_line original_line = Inr (wrap_repeat c t)
               \<and> step_type t = StepType_RAMP \<and> target_type t = TargetType_POWER
               \<and> duration_seconds t = d
               \<and> power_low_pct t = float_of_str lo \<and> power_high_pct t = float_of_str hi)"
  proof (rule impI)
    assume a: "matched_numbers POWER_RAMP_PATTERN line = Some (lo, hi)
          \<and> re_search POWER_RANGE_PATTERN line = None"
    from parse_target_step_ramp [OF assms(4) a [THEN conjunct1], of original_line ?n]
    obtain t where t: "parse_target_step original_line line ?n = Inr t"
      and k: "step_type t = StepType_RAMP" "target_type t = TargetType_POWER"
        "duration_seconds t = d" "power_low_pct t = float_of_str lo"
        "power_high_pct t = float_of_str hi"
      by blast
    from parse_line_target [OF assms(1,2,3) t] k
    show "\<exists>t. parse_line original_line = Inr (wrap_repeat c t)
               \<and> step_type t = StepType_RAMP \<and> target_type t = TargetType_POWER
               \<and> duration_seconds t = d
               \<and> power_low_pct t = float_of_str lo \<and> power_high_pct t = float_of_str hi"
      by (intro exI [of _ "apply_manual_intensity ?m t"]) simp
  qed
next
  let ?n = "fst (extract_notes original_line)"
  let ?m = "first_keyword INTENSITY_KEYWORDS (lower line)"
  show "re_search POWER_RAMP_PATTERN line = None
          \<and> re_search POWER_RANGE_PATTERN line = None
          \<and> matched_numbers POWER_STEADY_PATTERN line = Some (p, q) \<longrightarrow>
            (\<exists>t. parse_line original_line = Inr (wrap_repeat c t)
               \<and> step_type t = StepType_STEADY \<and> target_type t = TargetType_POWER
               \<and> duration_seconds t = d
               \<and> power_low_pct t = float_of_str p \<and> power_high_pct t = float_of_str p)"
  proof (rule impI)
    assume a: "re_search POWER_RAMP_PATTERN line = None
          \<and> re_search POWER_RANGE_PATTERN line = None
          \<and> matched_numbers POWER_STEADY_PATTERN line = Some (p, q)"
    from parse_target_step_steady [OF assms(4) a [THEN conjunct1]
        a [THEN conjunct2, THEN conjunct1] a [THEN conjunct2, THEN conjunct2],
        of original_line ?n]
    obtain t where t: "parse_target_step original_line line ?n = Inr t"
      and k: "step_type t = StepType_STEADY" "target_type t = TargetType_POWER"
        "duration_seconds t = d" "power_low_pct t = float_of_str p"
        "power_high_pct t = float_of_str p"
      by blast
    from parse_line_target [OF assms(1,2,3) t] k
    show "\<exists>t. parse_line original_line = Inr (wrap_repeat c t)
               \<and> step_type t = StepType_STEADY \<and> target_type t = TargetType_POWER
               \<and> duration_seconds t = d
               \<and> power_low_pct t = float_of_str p \<and> power_high_pct t = float_of_str p"
      by (intro exI [of _ "apply_manual_intensity ?m t"]) simp
  qed
qed

text \<open>
  The theorem of C2 at the lines \<open>5min 30% - 70% FTP\<close> and \<open>10min 90% FTP\<close>: the first gives
  a ramp from 30 to 70 percent over 300 seconds, the second a steady step at 90 percent over
  600 seconds.
\<close>

theorem power_target_step_kind_witness:
  "(\<exists>t. parse_line ''5min 30% - 70% FTP'' = Inr (wrap_repeat 1 t)
        \<and> step_type t = StepType_RAMP \<and> target_type t = TargetType_POWER
        \<and> duration_seconds t = 300 \<and> power_low_pct t = 30 \<and> power_high_pct t = 70)
   \<and> (\<exists>t. parse_line ''10min 90% FTP'' = Inr (wrap_repeat 1 t)
        \<and> step_type t = StepType_STEADY \<and> target_type t = TargetType_POWER
        \<and> duration_seconds t = 600 \<and> power_low_pct t = 90 \<and> power_high_pct t = 90)"
proof -
  let ?a = "''5min 30% - 70% FTP''"
  let ?b = "''10min 90% FTP''"
  have a1: "?a = snd (extract_repeat (snd (extract_notes ?a)))" by code_simp
  have a2: "1 = fst (extract_repeat (snd (extract_notes ?a)))" by code_simp
  have a3: "first_keyword SPECIAL_KEYWORDS (lower ?a) = None" by code_simp
  have a4: "parse_duration ?a = Some 300" by code_simp
  have a5: "matched_numbers POWER_RAMP_PATTERN ?a = Some (''30'', ''70'')" by code_simp
  have a6: "re_search POWER_RANGE_PATTERN ?a = None" by code_simp
  have b1: "?b = snd (extract_repeat (snd (extract_notes ?b)))" by code_simp
  have b2: "1 = fst (extract_repeat (snd (extract_notes ?b)))" by code_simp
  have b3: "first_keyword SPECIAL_KEYWORDS (lower ?b) = None" by code_simp
  have b4: "parse_duration ?b = Some 600" by code_simp
  have b5: "re_search POWER_RAMP_PATTERN ?b = None" by code_simp
  have b6: "re_search POWER_RANGE_PATTERN ?b = None" by code_simp
  have b7: "matched_numbers POWER_STEADY_PATTERN ?b = Some (''90'', [])" by code_simp
  have f: "float_of_str ''30'' = 30" "float_of_str ''70'' = 70" "float_of_str ''90'' = 90"
    by code_simp+
  from power_target_step_kind [OF a1 a2 a3 a4, THEN conjunct1, THEN mp, OF conjI [OF a5 a6]]
  have a: "\<exists>t. parse_line ?a = Inr (wrap_repeat 1 t)
        \<and> step_type t = StepType_RAMP \<and> target_type t = TargetType_POWER
        \<and> duration_seconds t = 300 \<and> power_low_pct t = 30 \<and> power_high_pct t = 70"
    unfolding f .
  from power_target_step_kind [OF b1 b2 b3 b4, THEN conjunct2, THEN mp,
      OF conjI [OF b5 conjI [OF b6 b7]]]
  have b: "\<exists>t. parse_line ?b = Inr (wrap_repeat 1 t)
        \<and> step_type t = StepType_STEADY \<and> target_type t = TargetType_POWER
        \<and> duration_seconds t = 600 \<and> power_low_pct t = 90 \<and> power_high_pct t = 90"
    unfolding f .
  from a b show ?thesis by (rule conjI)
qed

text \<open>
  Claim C2 as the specification states it fails: the line \<open>5min 30% - 70% FTP\<close> holds a
  two-number FTP target and no word of a ramp, and the step built from it has type \<open>RAMP\<close>,
  not \<open>RANGE\<close>.
\<close>

theorem two_number_target_counterexample:
  "parse_line ''5min 30% - 70% FTP'' =
     Inr (WorkoutStep StepType_RAMP 300 TargetType_POWER 30 70 None 0 0 False
            None None ''Ramp 30%-70%'' [] None 1 [])
   \<and> step_type (WorkoutStep StepType_RAMP 300 TargetType_POWER 30 70 None 0 0 False
            None None ''Ramp 30%-70%'' [] None 1 []) \<noteq> StepType_RANGE"
proof (rule conjI)
  show "parse_line ''5min 30% - 70% FTP'' =
     Inr (WorkoutStep StepType_RAMP 300 TargetType_POWER 30 70 None 0 0 False
            None None ''Ramp 30%-70%'' [] None 1 [])"
    by code_simp
next
  show "step_type (WorkoutStep StepType_RAMP 300 TargetType_POWER 30 70 None 0 0 False
            None None ''Ramp 30%-70%'' [] None 1 []) \<noteq> StepType_RANGE"
    by simp
qed

text \<open>
  The form without a percent sign after the first number, which the docstring of the parser
  and the help text of the program call a power range, is matched by the ramp pattern as
  well, because the percent sign of that pattern is optional, and the ramp branch comes
  first: that line gives a ramp too.
\<close>

lemma range_form_builds_ramp:
  "parse_line ''5min 85-95% FTP'' =
     Inr (WorkoutStep StepType_RAMP 300 TargetType_POWER 85 95 None 0 0 False
            None None ''Ramp 85%-95%'' [] None 1 [])"
  by code_simp

text \<open>
  Claim C7. Let a line hold a duration token: a number \<open>ds\<close> with an optional fraction \<open>fr\<close>,
  optional whitespace \<open>ws\<close>, and a unit \<open>u\<close> that is one of the twelve spellings in any
  letter case; and let no match of the duration pattern start in the text \<open>pre\<close> before the
  token, so that the token is the first duration match on the line. Whatever text \<open>post\<close>
  follows, \<open>_parse_duration\<close> returns the number \<open>N\<close> for a unit of seconds, \<open>N * 60\<close> for a
  unit of minutes and \<open>N * 3600\<close> for a unit of hours, where \<open>N\<close> is \<open>float\<close> of the number
  written and the products are the products of floats, as the source computes them.
\<close>

theorem duration_token_seconds:
  assumes "ds \<noteq> []" and "\<forall>c\<in>set ds. is_digit c"
    and "fr = [] \<or> (\<exists>fs. fr = CHR ''.'' # fs \<and> fs \<noteq> [] \<and> (\<forall>c\<in>set fs. is_digit c))"
    and "\<forall>c\<in>set ws. is_space c"
    and "lower u \<in> set [''s'', ''sec'', ''second'', ''seconds'', ''m'', ''min'', ''minute'',
                          ''minutes'', ''h'', ''hr'', ''hour'', ''hours'']"
    and "\<forall>i<length pre. match_at DURATION_PATTERN (pre @ ds @ fr @ ws @ u @ post)
                            (drop i (pre @ ds @ fr @ ws @ u @ post)) = None"
  shows "parse_duration (pre @ ds @ fr @ ws @ u @ post) =
           Some (if lower u \<in> set [''s'', ''sec'', ''second'', ''seconds'']
                 then float_of_str (ds @ fr)
                 else if lower u \<in> set [''m'', ''min'', ''minute'', ''minutes'']
                 then float_mul (float_of_str (ds @ fr)) 60
                 else float_mul (float_of_str (ds @ fr)) 3600)"
proof -
  from unit_spelling [OF assms(5)] obtain c u' where u: "u = c # u'"
    and c: "lower_char c \<in> {CHR ''s'', CHR ''m'', CHR ''h''}"
    and s: "lower_char c = CHR ''s'' \<longleftrightarrow> lower u \<in> set [''s'', ''sec'', ''second'', ''seconds'']"
    and m: "lower_char c = CHR ''m'' \<longleftrightarrow> lower u \<in> set [''m'', ''min'', ''minute'', ''minutes'']"
    by blast
  let ?tok = "ds @ fr @ ws @ c # u' @ post"
  let ?w = "pre @ ?tok"
  have w: "pre @ ds @ fr @ ws @ u @ post = ?w" by (simp add: u)
  have "first_way (length ?w) DURATION_PATTERN ?tok Map.empty
          = Some (u' @ post, [1 \<mapsto> ds @ fr, 2 \<mapsto> [c]])"
    by (rule duration_first_way [OF assms(1,2,3,4) c])
  from search_from_hit [OF match_at_first_way [OF this]]
  have hit: "search_from DURATION_PATTERN ?w ?tok
              = Some (length ?w - length ?tok, length ?w - length (u' @ post),
                      [1 \<mapsto> ds @ fr, 2 \<mapsto> [c]])" .
  have "search_from DURATION_PATTERN ?w (pre @ ?tok) = search_from DURATION_PATTERN ?w ?tok"
    by (rule search_from_skip) (use assms(6) in \<open>simp only: w\<close>)
  with hit have r: "re_search DURATION_PATTERN ?w
              = Some (length ?w - length ?tok, length ?w - length (u' @ post),
                      [1 \<mapsto> ds @ fr, 2 \<mapsto> [c]])"
    by (simp only: re_search_def)
  from c consider "lower_char c = CHR ''s''" | "lower_char c = CHR ''m''"
    | "lower_char c = CHR ''h''" by auto
  then have "parse_duration ?w =
           Some (if lower_char c = CHR ''s'' then float_of_str (ds @ fr)
                 else if lower_char c = CHR ''m'' then float_mul (float_of_str (ds @ fr)) 60
                 else float_mul (float_of_str (ds @ fr)) 3600)"
    by cases (simp_all add: parse_duration_def r group_def lower_def)
  then show ?thesis unfolding w s m .
qed

text \<open>
  The theorem of C7 at \<open>go 5.5 Min, then 30s\<close>, where a space comes before the unit and a
  second duration follows, at \<open>2HOURS 10s\<close> and at \<open>4.1min\<close>: 330 seconds, 7200 seconds, and
  the double \<open>245.99999999999997\<close>, which is the product of the doubles \<open>4.1\<close> and \<open>60\<close>.
\<close>

theorem duration_token_seconds_witness:
  "is_digit CHR ''5'' \<and> is_digit CHR ''2'' \<and> is_digit CHR ''4'' \<and> is_digit CHR ''1''
   \<and> is_space CHR '' ''
   \<and> lower ''Min'' = ''min'' \<and> lower ''HOURS'' = ''hours'' \<and> lower ''min'' = ''min''
   \<and> parse_duration ''go 5.5 Min, then 30s'' = Some 330
   \<and> parse_duration ''2HOURS 10s'' = Some 7200
   \<and> parse_duration ''4.1min'' = Some (8655355533852671 / 35184372088832)"
proof -
  have d: "\<forall>c\<in>set ''5''. is_digit c" "\<forall>c\<in>set ''2''. is_digit c"
    "\<forall>c\<in>set ''4''. is_digit c" "\<forall>c\<in>set ''1''. is_digit c"
    by (simp_all add: is_digit_def)
  have sp: "\<forall>c\<in>set '' ''. is_space c" by (simp add: is_space_def)
  have l: "lower ''Min'' = ''min''" "lower ''HOURS'' = ''hours''" "lower ''min'' = ''min''"
    by code_simp+
  have g: "\<forall>c\<in>set ''go ''. \<not> is_digit c" by (simp add: is_digit_def)
  have f: "float_mul (float_of_str ''5.5'') 60 = 330"
    "float_mul (float_of_str ''2'') 3600 = 7200"
    "float_mul (float_of_str ''4.1'') 60 = 8655355533852671 / 35184372088832"
    by code_simp+
  have "parse_duration (''go '' @ ''5'' @ ''.5'' @ '' '' @ ''Min'' @ '', then 30s'')
          = Some (if lower ''Min'' \<in> set [''s'', ''sec'', ''second'', ''seconds'']
                  then float_of_str (''5'' @ ''.5'')
                  else if lower ''Min'' \<in> set [''m'', ''min'', ''minute'', ''minutes'']
                  then float_mul (float_of_str (''5'' @ ''.5'')) 60
                  else float_mul (float_of_str (''5'' @ ''.5'')) 3600)"
    by (rule duration_token_seconds)
      (use d sp l no_digit_no_duration [OF g] in \<open>simp_all\<close>)
  then have a: "parse_duration ''go 5.5 Min, then 30s'' = Some 330"
    by (simp add: l f)
  have "parse_duration ([] @ ''2'' @ [] @ [] @ ''HOURS'' @ '' 10s'')
          = Some (if lower ''HOURS'' \<in> set [''s'', ''sec'', ''second'', ''seconds'']
                  then float_of_str (''2'' @ [])
                  else if lower ''HOURS'' \<in> set [''m'', ''min'', ''minute'', ''minutes'']
                  then float_mul (float_of_str (''2'' @ [])) 60
                  else float_mul (float_of_str (''2'' @ [])) 3600)"
    by (rule duration_token_seconds) (use d l in \<open>simp_all\<close>)
  then have b: "parse_duration ''2HOURS 10s'' = Some 7200"
    by (simp add: l f)
  have "parse_duration ([] @ ''4'' @ ''.1'' @ [] @ ''min'' @ [])
          = Some (if lower ''min'' \<in> set [''s'', ''sec'', ''second'', ''seconds'']
                  then float_of_str (''4'' @ ''.1'')
                  else if lower ''min'' \<in> set [''m'', ''min'', ''minute'', ''minutes'']
                  then float_mul (float_of_str (''4'' @ ''.1'')) 60
                  else float_mul (float_of_str (''4'' @ ''.1'')) 3600)"
    by (rule duration_token_seconds) (use d l in \<open>simp_all\<close>)
  then have c: "parse_duration ''4.1min'' = Some (8655355533852671 / 35184372088832)"
    by (simp add: l f)
  from d sp l a b c show ?thesis by simp
qed

text \<open>
  Claim C8. Let a line hold a quoted run \<open>"q"\<close>, with \<open>q\<close> not empty and free of quotes, after
  a text \<open>pre\<close> free of quotes: the first quoted run of the line. Then the notes are \<open>q\<close>
  and the line that goes on to the repeat prefix, the duration and the targets is
  \<open>pre @ post\<close>, the quoted run cut out. So the outcome of the line (an error or a step, and
  the step apart from its notes) is the outcome of \<open>pre @ post\<close> parsed with no notes,
  whatever the quoted text holds; and when a step is built, \<open>q\<close> is stored as its notes (as
  the notes of the inner step when the line has a repeat prefix).
\<close>

theorem quoted_notes_removed:
  assumes "CHR 0x22 \<notin> set pre" and "q \<noteq> []" and "CHR 0x22 \<notin> set q"
  shows "extract_notes (pre @ CHR 0x22 # q @ CHR 0x22 # post) = (q, pre @ post)
    \<and> parse_line (pre @ CHR 0x22 # q @ CHR 0x22 # post)
        = parse_after_notes (pre @ CHR 0x22 # q @ CHR 0x22 # post) q (pre @ post)
    \<and> map_sum (\<lambda>e. ()) without_notes (parse_line (pre @ CHR 0x22 # q @ CHR 0x22 # post))
        = map_sum (\<lambda>e. ()) without_notes (parse_after_notes (pre @ post) [] (pre @ post))
    \<and> (\<forall>s. parse_line (pre @ CHR 0x22 # q @ CHR 0x22 # post) = Inr s \<longrightarrow>
          (if step_type s = StepType_REPEAT
           then map notes_step (repeat_steps s) = [q] else notes_step s = q))"
proof -
  let ?l = "pre @ CHR 0x22 # q @ CHR 0x22 # post"
  have e: "extract_notes ?l = (q, pre @ post)" by (rule extract_notes_quoted [OF assms])
  then have p: "parse_line ?l = parse_after_notes ?l q (pre @ post)"
    by (simp add: parse_line_def)
  have f: "map_sum (\<lambda>e. ()) without_notes (parse_line ?l)
        = map_sum (\<lambda>e. ()) without_notes (parse_after_notes (pre @ post) [] (pre @ post))"
    unfolding p by (rule parse_after_notes_free)
  have n: "\<forall>s. parse_line ?l = Inr s \<longrightarrow>
          (if step_type s = StepType_REPEAT
           then map notes_step (repeat_steps s) = [q] else notes_step s = q)"
    unfolding p using parse_after_notes_notes [OF assms(2)] by blast
  from e p f n show ?thesis by blast
qed

text \<open>
  The theorem of C8 at the line \<open>"100% FTP note" 5min 80% FTP\<close>: a steady step of 300
  seconds at 80 percent, with the quoted text as its notes.
\<close>

theorem quoted_notes_removed_witness:
  "CHR 0x22 \<notin> set [] \<and> ''100% FTP note'' \<noteq> [] \<and> CHR 0x22 \<notin> set ''100% FTP note''
   \<and> extract_notes (CHR 0x22 # ''100% FTP note'' @ CHR 0x22 # '' 5min 80% FTP'')
       = (''100% FTP note'', '' 5min 80% FTP'')
   \<and> parse_line (CHR 0x22 # ''100% FTP note'' @ CHR 0x22 # '' 5min 80% FTP'')
       = Inr (WorkoutStep StepType_STEADY 300 TargetType_POWER 80 80 None 0 0 False
                None None ''80% FTP'' ''100% FTP note'' None 1 [])
   \<and> map_sum (\<lambda>e. ()) without_notes
        (parse_line (CHR 0x22 # ''100% FTP note'' @ CHR 0x22 # '' 5min 80% FTP''))
       = map_sum (\<lambda>e. ()) without_notes
           (parse_after_notes '' 5min 80% FTP'' [] '' 5min 80% FTP'')"
proof -
  have h: "CHR 0x22 \<notin> set []" "''100% FTP note'' \<noteq> []" "CHR 0x22 \<notin> set ''100% FTP note''"
    by simp_all
  note t = quoted_notes_removed [OF h, of "'' 5min 80% FTP''"]
  have e: "extract_notes (CHR 0x22 # ''100% FTP note'' @ CHR 0x22 # '' 5min 80% FTP'')
       = (''100% FTP note'', '' 5min 80% FTP'')"
    using t [THEN conjunct1] by simp
  have f: "map_sum (\<lambda>e. ()) without_notes
        (parse_line (CHR 0x22 # ''100% FTP note'' @ CHR 0x22 # '' 5min 80% FTP''))
       = map_sum (\<lambda>e. ()) without_notes
           (parse_after_notes '' 5min 80% FTP'' [] '' 5min 80% FTP'')"
    using t [THEN conjunct2, THEN conjunct2, THEN conjunct1] by simp
  have p: "parse_line (CHR 0x22 # ''100% FTP note'' @ CHR 0x22 # '' 5min 80% FTP'')
       = Inr (WorkoutStep StepType_STEADY 300 TargetType_POWER 80 80 None 0 0 False
                None None ''80% FTP'' ''100% FTP note'' None 1 [])"
    by code_simp
  from h e p f show ?thesis by blast
qed

text \<open>
  Claim C9. Take a line with no special keyword, and let \<open>line\<close> be what is left of it after
  the notes and the repeat prefix are taken away. If \<open>line\<close> holds a duration and none of the
  three power patterns and neither of the two heart-rate patterns matches it, \<open>_parse_line\<close>
  raises \<open>WorkoutParseError\<close> with the message \<open>No power or HR target found in:\<close> followed by
  the line; no step is returned.
\<close>

theorem no_target_is_parse_error:
  assumes "line = snd (extract_repeat (snd (extract_notes original_line)))"
    and "first_keyword SPECIAL_KEYWORDS (lower line) = None"
    and "parse_duration line \<noteq> None"
    and "re_search POWER_RAMP_PATTERN line = None"
    and "re_search POWER_RANGE_PATTERN line = None"
    and "re_search POWER_STEADY_PATTERN line = None"
    and "re_search HR_PERCENTAGE_PATTERN line = None"
    and "re_search HR_ABSOLUTE_PATTERN line = None"
  shows "parse_line original_line =
           Inl (WorkoutParseError (''No power or HR target found in: '' @ original_line))"
proof -
  obtain n l1 where n: "extract_notes original_line = (n, l1)"
    by (cases "extract_notes original_line")
  obtain c l where r: "extract_repeat l1 = (c, l)" by (cases "extract_repeat l1")
  have l: "l = line" using assms(1) n r by simp
  have "parse_target_step original_line line n =
           Inl (WorkoutParseError (''No power or HR target found in: '' @ original_line))"
    by (rule parse_target_step_no_target) (use assms in auto)
  then show ?thesis
    using assms(2) by (simp add: parse_line_def n parse_after_notes_def r l Let_def)
qed

text \<open>The theorem of C9 at the line \<open>5min @90rpm\<close>, which holds a cadence only.\<close>

theorem no_target_is_parse_error_witness:
  "''5min @90rpm'' = snd (extract_repeat (snd (extract_notes ''5min @90rpm'')))
   \<and> first_keyword SPECIAL_KEYWORDS (lower ''5min @90rpm'') = None
   \<and> parse_duration ''5min @90rpm'' \<noteq> None
   \<and> re_search POWER_RAMP_PATTERN ''5min @90rpm'' = None
   \<and> re_search POWER_RANGE_PATTERN ''5min @90rpm'' = None
   \<and> re_search POWER_STEADY_PATTERN ''5min @90rpm'' = None
   \<and> re_search HR_PERCENTAGE_PATTERN ''5min @90rpm'' = None
   \<and> re_search HR_ABSOLUTE_PATTERN ''5min @90rpm'' = None
   \<and> parse_line ''5min @90rpm'' =
        Inl (WorkoutParseError ''No power or HR target found in: 5min @90rpm'')"
proof -
  let ?l = "''5min @90rpm''"
  have 1: "?l = snd (extract_repeat (snd (extract_notes ?l)))" by code_simp
  have 2: "first_keyword SPECIAL_KEYWORDS (lower ?l) = None" by code_simp
  have 3: "parse_duration ?l \<noteq> None" by code_simp
  have 4: "re_search POWER_RAMP_PATTERN ?l = None" by code_simp
  have 5: "re_search POWER_RANGE_PATTERN ?l = None" by code_simp
  have 6: "re_search POWER_STEADY_PATTERN ?l = None" by code_simp
  have 7: "re_search HR_PERCENTAGE_PATTERN ?l = None" by code_simp
  have 8: "re_search HR_ABSOLUTE_PATTERN ?l = None" by code_simp
  from no_target_is_parse_error [OF 1 2 3 4 5 6 7 8]
  have "parse_line ?l = Inl (WorkoutParseError ''No power or HR target found in: 5min @90rpm'')"
    by simp
  with 1 2 3 4 5 6 7 8 show ?thesis by blast
qed

text \<open>
  Claim C10. Every step of type \<open>REPEAT\<close> that \<open>_parse_line\<close> returns, and so every such step
  in the list \<open>parse\<close> returns, holds exactly one inner step, that inner step is not of type
  \<open>REPEAT\<close>, and the duration of the block itself is 0.
\<close>

theorem parser_repeat_single_inner:
  "(parse_line line = Inr s \<and> step_type s = StepType_REPEAT \<longrightarrow>
      (\<exists>t. repeat_steps s = [t] \<and> step_type t \<noteq> StepType_REPEAT)
      \<and> length (repeat_steps s) = 1 \<and> duration_seconds s = 0)
   \<and> (parse text = Inr out \<longrightarrow>
        (\<forall>s\<in>set out. step_type s = StepType_REPEAT \<longrightarrow>
           (\<exists>t. repeat_steps s = [t] \<and> step_type t \<noteq> StepType_REPEAT)
           \<and> length (repeat_steps s) = 1 \<and> duration_seconds s = 0))"
proof (rule conjI)
  show "parse_line line = Inr s \<and> step_type s = StepType_REPEAT \<longrightarrow>
      (\<exists>t. repeat_steps s = [t] \<and> step_type t \<noteq> StepType_REPEAT)
      \<and> length (repeat_steps s) = 1 \<and> duration_seconds s = 0"
    using parse_line_repeat [of line s] by auto
next
  show "parse text = Inr out \<longrightarrow>
        (\<forall>s\<in>set out. step_type s = StepType_REPEAT \<longrightarrow>
           (\<exists>t. repeat_steps s = [t] \<and> step_type t \<noteq> StepType_REPEAT)
           \<and> length (repeat_steps s) = 1 \<and> duration_seconds s = 0)"
  proof (intro impI ballI)
    fix s
    assume p: "parse text = Inr out" and s: "s \<in> set out"
      and r: "step_type s = StepType_REPEAT"
    from parse_steps [OF p] s obtain l where "parse_line l = Inr s" by blast
    from parse_line_repeat [OF this r]
    show "(\<exists>t. repeat_steps s = [t] \<and> step_type t \<noteq> StepType_REPEAT)
           \<and> length (repeat_steps s) = 1 \<and> duration_seconds s = 0"
      by auto
  qed
qed

text \<open>The theorem of C10 at the line \<open>3x 2min 100% FTP\<close>.\<close>

theorem parser_repeat_single_inner_witness:
  "parse_line ''3x 2min 100% FTP'' =
     Inr (WorkoutStep StepType_REPEAT 0 TargetType_POWER 0 0 None 0 0 False None None
            ''3x 100% FTP'' [] None 3
            [WorkoutStep StepType_STEADY 120 TargetType_POWER 100 100 None 0 0 False
               None None ''100% FTP'' [] None 1 []])
   \<and> length (repeat_steps
        (WorkoutStep StepType_REPEAT 0 TargetType_POWER 0 0 None 0 0 False None None
            ''3x 100% FTP'' [] None 3
            [WorkoutStep StepType_STEADY 120 TargetType_POWER 100 100 None 0 0 False
               None None ''100% FTP'' [] None 1 []])) = 1
   \<and> duration_seconds
        (WorkoutStep StepType_REPEAT 0 TargetType_POWER 0 0 None 0 0 False None None
            ''3x 100% FTP'' [] None 3
            [WorkoutStep StepType_STEADY 120 TargetType_POWER 100 100 None 0 0 False
               None None ''100% FTP'' [] None 1 []]) = 0"
proof -
  let ?s = "WorkoutStep StepType_REPEAT 0 TargetType_POWER 0 0 None 0 0 False None None
            ''3x 100% FTP'' [] None 3
            [WorkoutStep StepType_STEADY 120 TargetType_POWER 100 100 None 0 0 False
               None None ''100% FTP'' [] None 1 []]"
  have p: "parse_line ''3x 2min 100% FTP'' = Inr ?s" by code_simp
  have r: "step_type ?s = StepType_REPEAT" by simp
  from parser_repeat_single_inner [where line = "''3x 2min 100% FTP''" and s = ?s,
      THEN conjunct1, THEN mp, OF conjI [OF p r]]
  have "length (repeat_steps ?s) = 1 \<and> duration_seconds ?s = 0" by blast
  with p show ?thesis by blast
qed

end
